theory Spec2Isabelle
  imports Main "HOL-Library.Sublist"
begin

section \<open>Python values and errors\<close>

text \<open>
  The documents of the pipeline are Python dictionaries from field names to values.
  The values that the adapters of the repository put into a document are strings,
  \<^verbatim>\<open>None\<close> and (for \<^verbatim>\<open>metadata\<close>) nested dictionaries; these are the values of
  the model. A dictionary is a map from keys to values; an absent key is \<open>None\<close> of
  the map, a key bound to Python's \<^verbatim>\<open>None\<close> is \<open>Some Null\<close>.
\<close>

datatype val = Null | Str string | Dict "(string \<times> val) list"

type_synonym doc = "string \<rightharpoonup> val"

text \<open>Every exception that the modelled code can raise is a value.\<close>

datatype error =
    ValueError "string list"
  | TypeError
  | AttributeError
  | KeyError string
  | IndexError
  | RequestException
  | HTTPError nat
  | JSONDecodeError
  | StoreError

text \<open>Python truthiness: \<^verbatim>\<open>None\<close>, the empty string and the empty dictionary are false.\<close>

fun truthy :: "val \<Rightarrow> bool" where
  "truthy Null = False"
| "truthy (Str s) = (s \<noteq> [])"
| "truthy (Dict kvs) = (kvs \<noteq> [])"

text \<open>\<^verbatim>\<open>d.get(k)\<close>: the value, or \<^verbatim>\<open>None\<close> for an absent key.\<close>

definition get :: "doc \<Rightarrow> string \<Rightarrow> val" where
  "get d k = (case d k of None \<Rightarrow> Null | Some v \<Rightarrow> v)"

text \<open>\<^verbatim>\<open>a or b\<close> returns \<^verbatim>\<open>a\<close> when it is true, else \<^verbatim>\<open>b\<close>.\<close>

definition py_or :: "val \<Rightarrow> val \<Rightarrow> val" where
  "py_or a b = (if truthy a then a else b)"

text \<open>Dictionaries are unhashable: testing one for membership in a set raises.\<close>

fun hashable :: "val \<Rightarrow> bool" where
  "hashable (Dict kvs) = False"
| "hashable v = True"


section \<open>Identifier parsing (\<^verbatim>\<open>eu_api.parse_identifier\<close>)\<close>

text \<open>
  \<^verbatim>\<open>s.split(sep)\<close> for a one-character separator: the segments between the
  separators, in order; the result is never empty. \<open>cur\<close> is the segment read so far.
\<close>

fun split_from :: "char \<Rightarrow> string \<Rightarrow> string \<Rightarrow> string list" where
  "split_from c cur [] = [cur]"
| "split_from c cur (x # xs) =
     (if x = c then cur # split_from c [] xs else split_from c (cur @ [x]) xs)"

definition split_str :: "char \<Rightarrow> string \<Rightarrow> string list" where
  "split_str c s = split_from c [] s"

text \<open>\<^verbatim>\<open>sep.join(parts)\<close>.\<close>

fun join :: "string \<Rightarrow> string list \<Rightarrow> string" where
  "join sep [] = []"
| "join sep [p] = p"
| "join sep (p # q # ps) = p @ sep @ join sep (q # ps)"

text \<open>\<^verbatim>\<open>parts[i]\<close> for \<open>i \<ge> 0\<close>: an index out of range raises.\<close>

definition item :: "'a list \<Rightarrow> nat \<Rightarrow> error + 'a" where
  "item xs i = (if i < length xs then Inr (xs ! i) else Inl IndexError)"

record parsed_identifier =
  kind :: "string option"
  term_seg :: "string option"
  year :: "string option"
  number :: "string option"
  date :: "string option"

text \<open>
  \<^verbatim>\<open>parts[2:5]\<close> is a slice and cannot raise; every \<^verbatim>\<open>parts[i]\<close> can, and is an
  \<open>item\<close> of the model. The field \<^verbatim>\<open>term\<close> is \<open>term_seg\<close> here.
\<close>

definition parse_identifier :: "string \<Rightarrow> error + parsed_identifier" where
  "parse_identifier identifier =
     (let parts = split_str (CHR ''-'') identifier in
      if parts = [] \<or> length parts < 2 then
        Inr \<lparr>kind = None, term_seg = None, year = None, number = None, date = None\<rparr>
      else
        (case item parts 0 of
           Inl e \<Rightarrow> Inl e
         | Inr k \<Rightarrow>
        (case item parts 1 of
           Inl e \<Rightarrow> Inl e
         | Inr t \<Rightarrow>
        if k = ''CRE'' then
          (let date_str = (if length parts \<ge> 5 then Some (join ''-'' (take 3 (drop 2 parts)))
                           else None)
           in Inr \<lparr>kind = Some k, term_seg = Some t, year = None, number = None,
                    date = date_str\<rparr>)
        else
          (case (if length parts > 2 then map_sum id Some (item parts 2) else Inr None) of
             Inl e \<Rightarrow> Inl e
           | Inr y \<Rightarrow>
          (case (if length parts > 3 then map_sum id Some (item parts 3) else Inr None) of
             Inl e \<Rightarrow> Inl e
           | Inr n \<Rightarrow>
               Inr \<lparr>kind = Some k, term_seg = Some t, year = y, number = n,
                     date = None\<rparr>)))))"

text \<open>The record that a malformed identifier yields.\<close>

definition no_fields :: parsed_identifier where
  "no_fields = \<lparr>kind = None, term_seg = None, year = None, number = None, date = None\<rparr>"


section \<open>Cursor pagination (\<^verbatim>\<open>DIPClient._paginate_cursor\<close>)\<close>

text \<open>
  A JSON page of the upstream API: the \<^verbatim>\<open>documents\<close> and \<^verbatim>\<open>data\<close> arrays and the
  \<^verbatim>\<open>cursor\<close> token, each absent (or null) or present. The items are opaque.
\<close>

record 'd page =
  documents :: "'d list option"
  data :: "'d list option"
  cursor :: "string option"

datatype 'd body = NotJson | JsonArray "'d list" | JsonObject "'d page"

text \<open>
  What one \<^verbatim>\<open>session.get\<close> gives: no response at all (a timeout or a connection
  failure, \<^verbatim>\<open>requests\<close> raises), or a status code with a body.
\<close>

datatype 'd response = NoResponse | Response nat "'d body"

text \<open>
  The upstream server is any function from the number of the request (its state may
  change between requests) and the \<^verbatim>\<open>cursor\<close> parameter sent (\<open>None\<close>: no such
  parameter) to a response.
\<close>

type_synonym 'd server = "nat \<Rightarrow> string option \<Rightarrow> 'd response"

text \<open>
  \<^verbatim>\<open>resp.raise_for_status()\<close> raises for a 4xx or 5xx status; \<^verbatim>\<open>resp.json()\<close> raises
  when the body is not JSON; \<^verbatim>\<open>data.get\<close> raises when the JSON value is an array.
\<close>

definition fetch_page :: "'d response \<Rightarrow> error + 'd page" where
  "fetch_page r =
     (case r of
        NoResponse \<Rightarrow> Inl RequestException
      | Response st b \<Rightarrow>
          if 400 \<le> st \<and> st < 600 then Inl (HTTPError st)
          else (case b of
                  NotJson \<Rightarrow> Inl JSONDecodeError
                | JsonArray xs \<Rightarrow> Inl AttributeError
                | JsonObject p \<Rightarrow> Inr p))"

text \<open>\<^verbatim>\<open>data.get("documents") or data.get("data") or []\<close>.\<close>

definition page_docs :: "'d page \<Rightarrow> 'd list" where
  "page_docs p =
     (case documents p of
        Some (x # xs) \<Rightarrow> x # xs
      | _ \<Rightarrow> (case data p of Some (y # ys) \<Rightarrow> y # ys | _ \<Rightarrow> []))"

text \<open>\<^verbatim>\<open>not next_cursor\<close>: the token is absent, null or empty.\<close>

definition no_cursor :: "string option \<Rightarrow> bool" where
  "no_cursor c = (c = None \<or> c = Some [])"

text \<open>
  The loop of the generator. \<open>n\<close> counts the requests made so far, \<open>prev\<close> is
  \<^verbatim>\<open>prev_cursor\<close> (which is also the \<^verbatim>\<open>cursor\<close> parameter of the next request) and
  \<open>acc\<close> the items yielded so far. The result is the items yielded, the number of
  requests made and the exception that ended the generator, if any; \<open>None\<close> is a
  generator that never ends.
\<close>

partial_function (option) paginate_loop ::
  "'d server \<Rightarrow> nat \<Rightarrow> string option \<Rightarrow> 'd list \<Rightarrow> ('d list \<times> nat \<times> error option) option"
where
  "paginate_loop srv n prev acc =
     (case fetch_page (srv n prev) of
        Inl e \<Rightarrow> Some (acc, Suc n, Some e)
      | Inr p \<Rightarrow>
          if no_cursor (cursor p) \<or> cursor p = prev
          then Some (acc @ page_docs p, Suc n, None)
          else paginate_loop srv (Suc n) (cursor p) (acc @ page_docs p))"

definition paginate_cursor :: "'d server \<Rightarrow> ('d list \<times> nat \<times> error option) option" where
  "paginate_cursor srv = paginate_loop srv 0 None []"

text \<open>
  The run that the loop makes against a server, step by step: the \<^verbatim>\<open>cursor\<close>
  parameter of request \<open>k\<close> (the token of page \<open>k - 1\<close>), whether page \<open>k\<close> is one
  that returns no token or repeats the token of the page before it, whether request
  \<open>k\<close> fails, and the items of page \<open>k\<close>.
\<close>

fun cursor_sent :: "'d server \<Rightarrow> nat \<Rightarrow> string option" where
  "cursor_sent srv 0 = None"
| "cursor_sent srv (Suc k) =
     (case fetch_page (srv k (cursor_sent srv k)) of Inl e \<Rightarrow> None | Inr p \<Rightarrow> cursor p)"

definition last_page :: "'d server \<Rightarrow> nat \<Rightarrow> bool" where
  "last_page srv k =
     (case fetch_page (srv k (cursor_sent srv k)) of
        Inl e \<Rightarrow> False
      | Inr p \<Rightarrow> no_cursor (cursor p) \<or> cursor p = cursor_sent srv k)"

definition failed_request :: "'d server \<Rightarrow> nat \<Rightarrow> error option" where
  "failed_request srv k =
     (case fetch_page (srv k (cursor_sent srv k)) of Inl e \<Rightarrow> Some e | Inr p \<Rightarrow> None)"

definition items_of_request :: "'d server \<Rightarrow> nat \<Rightarrow> 'd list" where
  "items_of_request srv k =
     (case fetch_page (srv k (cursor_sent srv k)) of Inl e \<Rightarrow> [] | Inr p \<Rightarrow> page_docs p)"

definition ends_at :: "'d server \<Rightarrow> nat \<Rightarrow> bool" where
  "ends_at srv k = (last_page srv k \<or> failed_request srv k \<noteq> None)"

text \<open>A server that echoes the same token on every page instead of ending the listing.\<close>

definition stale_server :: "string server" where
  "stale_server n c =
     Response 200 (JsonObject \<lparr>documents = Some [''doc''], data = None, cursor = Some ''tok''\<rparr>)"

text \<open>
  A server whose first answer is a 503 and which would answer every later request
  with a full last page.
\<close>

definition flaky_server :: "string server" where
  "flaky_server n c =
     (if n = 0 then Response 503 NotJson
      else Response 200 (JsonObject \<lparr>documents = Some [''doc''], data = None, cursor = None\<rparr>))"

text \<open>A server that serves one page with a token and then times out.\<close>

definition timeout_server :: "string server" where
  "timeout_server n c =
     (if n = 0
      then Response 200 (JsonObject \<lparr>documents = Some [''doc''], data = None, cursor = Some ''c1''\<rparr>)
      else NoResponse)"


section \<open>Indexing (\<^verbatim>\<open>search_service.index_documents\<close>)\<close>

text \<open>
  What the code takes from outside: the configured index name, the SHA-1 hex digest of
  the UTF-8 encoding of a string (\<^verbatim>\<open>hashlib\<close>), and the clock: \<open>utcnow env n\<close> is the
  ISO text of \<^verbatim>\<open>datetime.utcnow()\<close> at its \<open>n\<close>-th reading. The store is taken from
  outside as well: a \<open>store\<close> is the bulk write of the store client, preceded by
  \<^verbatim>\<open>ensure_index\<close>; it may raise, and otherwise reports the number of successes and
  the error items.
\<close>

record env =
  os_index :: string
  sha1_hexdigest :: "string \<Rightarrow> string"
  utcnow :: "nat \<Rightarrow> string"

record action =
  a_op_type :: string
  a_index :: string
  a_id :: val
  a_source :: doc

type_synonym store = "action list \<Rightarrow> error + nat \<times> val list"

text \<open>\<^verbatim>\<open>_doc_id(url)\<close>; \<^verbatim>\<open>url.encode\<close> raises when the url is not a string.\<close>

definition doc_id :: "env \<Rightarrow> val \<Rightarrow> error + string" where
  "doc_id env url = (case url of Str u \<Rightarrow> Inr (sha1_hexdigest env u) | _ \<Rightarrow> Inl AttributeError)"

text \<open>
  The body of the loop of \<^verbatim>\<open>gen_actions\<close> before the \<^verbatim>\<open>yield\<close>: the document after the
  assignment to \<^verbatim>\<open>d["id"]\<close>.
\<close>

definition assign_id :: "env \<Rightarrow> doc \<Rightarrow> error + doc" where
  "assign_id env d =
     (if \<not> truthy (get d ''id'') \<and> truthy (get d ''url'') then
        (case doc_id env (get d ''url'') of
           Inl e \<Rightarrow> Inl e
         | Inr h \<Rightarrow> Inr (d(''id'' \<mapsto> Str h)))
      else Inr d)"

text \<open>
  \<^verbatim>\<open>gen_actions\<close>, run to its end: the documents as the loop leaves them (they are
  changed in place) and the actions yielded.
\<close>

fun gen_actions :: "env \<Rightarrow> string \<Rightarrow> doc list \<Rightarrow> error + doc list \<times> action list" where
  "gen_actions env index [] = Inr ([], [])"
| "gen_actions env index (d # ds) =
     (case assign_id env d of
        Inl e \<Rightarrow> Inl e
      | Inr d' \<Rightarrow>
          (case gen_actions env index ds of
             Inl e \<Rightarrow> Inl e
           | Inr (ds', acts) \<Rightarrow>
               Inr (d' # ds',
                    \<lparr>a_op_type = ''index'', a_index = index, a_id = get d' ''id'', a_source = d'\<rparr>
                      # acts)))"

record index_result =
  docs_after :: "doc list"
  submitted :: "action list"
  success :: nat
  errors :: "val list"

definition index_documents :: "env \<Rightarrow> store \<Rightarrow> doc list \<Rightarrow> error + index_result" where
  "index_documents env bulk docs =
     (case gen_actions env (os_index env) docs of
        Inl e \<Rightarrow> Inl e
      | Inr (docs', acts) \<Rightarrow>
          (case bulk acts of
             Inl e \<Rightarrow> Inl e
           | Inr (n, errs) \<Rightarrow>
               Inr \<lparr>docs_after = docs', submitted = acts, success = n, errors = errs\<rparr>))"


section \<open>Ingestion (\<^verbatim>\<open>ingestion_service\<close>)\<close>

text \<open>\<^verbatim>\<open>out.setdefault(k, v)\<close>.\<close>

definition setdefault :: "doc \<Rightarrow> string \<Rightarrow> val \<Rightarrow> doc" where
  "setdefault d k v = (case d k of None \<Rightarrow> d(k \<mapsto> v) | Some w \<Rightarrow> d)"

definition validate_doc_shape :: "string \<Rightarrow> doc \<Rightarrow> error + doc" where
  "validate_doc_shape now doc =
     (let out = setdefault doc ''language'' (Str ''de'');
          out = setdefault out ''ingested_at'' (Str (now @ ''Z''));
          missing = filter (\<lambda>k. \<not> truthy (get out k)) [''source'', ''url'', ''content'']
      in if missing \<noteq> [] then Inl (ValueError missing) else Inr out)"

text \<open>
  The local variables of \<^verbatim>\<open>run_and_index\<close>, and with them the batches that the run has
  handed to \<^verbatim>\<open>index_documents\<close> so far, oldest first, each as it was at the call.
\<close>

record run_state =
  batch :: "doc list"
  seen_ids :: "val set"
  total :: nat
  flushed :: "doc list list"

definition init_state :: run_state where
  "init_state = \<lparr>batch = [], seen_ids = {}, total = 0, flushed = []\<rparr>"

text \<open>
  \<^verbatim>\<open>res = index_documents(batch); total += res.get("success", 0); batch.clear()\<close>.
  When the call raises, the batch has been handed over all the same.
\<close>

definition flush :: "env \<Rightarrow> store \<Rightarrow> run_state \<Rightarrow> error option \<times> run_state" where
  "flush env bulk s =
     (let s' = s\<lparr>flushed := flushed s @ [batch s]\<rparr> in
      case index_documents env bulk (batch s) of
        Inl e \<Rightarrow> (Some e, s')
      | Inr res \<Rightarrow> (None, s'\<lparr>total := total s + success res, batch := []\<rparr>))"

text \<open>
  The \<^verbatim>\<open>for\<close> loop; \<open>i\<close> is the number of documents read before, that is, the number
  of readings of the clock. The result is the exception that ended the loop, if any,
  and the state then.
\<close>

fun run_loop ::
  "env \<Rightarrow> store \<Rightarrow> int \<Rightarrow> nat \<Rightarrow> doc list \<Rightarrow> run_state \<Rightarrow> error option \<times> run_state"
where
  "run_loop env bulk batch_size i [] s = (None, s)"
| "run_loop env bulk batch_size i (doc # rest) s =
     (case validate_doc_shape (utcnow env i) doc of
        Inl e \<Rightarrow> (Some e, s)
      | Inr clean \<Rightarrow>
          let ident = py_or (get clean ''id'') (get clean ''url'') in
          if truthy ident \<and> \<not> hashable ident then (Some TypeError, s)
          else if truthy ident \<and> ident \<in> seen_ids s
          then run_loop env bulk batch_size (Suc i) rest s
          else
            let s1 = (if truthy ident then s\<lparr>seen_ids := insert ident (seen_ids s)\<rparr> else s);
                s2 = s1\<lparr>batch := batch s1 @ [clean]\<rparr>
            in if int (length (batch s2)) \<ge> batch_size
               then (case flush env bulk s2 of
                       (Some e, s3) \<Rightarrow> (Some e, s3)
                     | (None, s3) \<Rightarrow> run_loop env bulk batch_size (Suc i) rest s3)
               else run_loop env bulk batch_size (Suc i) rest s2)"

text \<open>
  \<^verbatim>\<open>run_and_index\<close>: what it returns (the \<^verbatim>\<open>indexed\<close> count) or raises, and the
  batches it handed to \<^verbatim>\<open>index_documents\<close>.
\<close>

definition run_and_index ::
  "env \<Rightarrow> store \<Rightarrow> doc list \<Rightarrow> int \<Rightarrow> (error + nat) \<times> doc list list"
where
  "run_and_index env bulk source_iter batch_size =
     (case run_loop env bulk batch_size 0 source_iter init_state of
        (Some e, s) \<Rightarrow> (Inl e, flushed s)
      | (None, s) \<Rightarrow>
          if batch s \<noteq> [] then
            (case flush env bulk s of
               (Some e, s') \<Rightarrow> (Inl e, flushed s')
             | (None, s') \<Rightarrow> (Inr (total s'), flushed s'))
          else (Inr (total s), flushed s))"

text \<open>The identifier under which a run remembers a document: the id, else the url.\<close>

definition identifier_of :: "doc \<Rightarrow> val" where
  "identifier_of d = py_or (get d ''id'') (get d ''url'')"

text \<open>
  The required fields that are empty or absent in a document, in the order in which
  \<^verbatim>\<open>validate_doc_shape\<close> lists them, and a document in which none is.
\<close>

definition missing_fields :: "doc \<Rightarrow> string list" where
  "missing_fields d = filter (\<lambda>k. \<not> truthy (get d k)) [''source'', ''url'', ''content'']"

definition valid_doc :: "doc \<Rightarrow> bool" where
  "valid_doc d =
     (truthy (get d ''source'') \<and> truthy (get d ''url'') \<and> truthy (get d ''content''))"

text \<open>
  All documents that a run has accepted so far: those of the batches handed to
  \<^verbatim>\<open>index_documents\<close> and those of the batch in memory.
\<close>

definition handed_over :: "run_state \<Rightarrow> doc list" where
  "handed_over s = concat (flushed s) @ batch s"

text \<open>
  What the loop keeps true: every accepted document is valid and has a hashable
  identifier, the seen-set holds exactly the identifiers of the accepted documents, and
  no identifier was accepted twice.
\<close>

definition run_inv :: "run_state \<Rightarrow> bool" where
  "run_inv s =
     ((\<forall>x \<in> set (handed_over s). valid_doc x \<and> hashable (identifier_of x)) \<and>
      identifier_of ` set (handed_over s) = seen_ids s \<and>
      distinct (map identifier_of (handed_over s)))"

definition log_ok :: "doc list list \<Rightarrow> bool" where
  "log_ok log =
     ((\<forall>x \<in> set (concat log). valid_doc x \<and> hashable (identifier_of x)) \<and>
      distinct (map identifier_of (concat log)))"

text \<open>
  A concrete environment for runs on concrete inputs: a store that accepts every
  action, a fixed clock, and a stand-in for the digest (any function of the url does).
\<close>

definition example_env :: env where
  "example_env =
     \<lparr>os_index = ''protocols-v1'', sha1_hexdigest = (\<lambda>u. ''sha1:'' @ u),
      utcnow = (\<lambda>n. ''2025-08-01T00:00:00'')\<rparr>"

definition store_ok :: store where
  "store_ok acts = Inr (length acts, [])"

definition example_doc :: "string \<Rightarrow> string \<Rightarrow> doc" where
  "example_doc i text =
     [''id'' \<mapsto> Str i, ''source'' \<mapsto> Str ''bundestag'',
      ''url'' \<mapsto> Str (''https://example.org/bt/'' @ i), ''content'' \<mapsto> Str text]"

definition url_only_doc :: doc where
  "url_only_doc =
     [''source'' \<mapsto> Str ''bmi'', ''url'' \<mapsto> Str ''https://example.org/bmi/2'',
      ''content'' \<mapsto> Str ''text'']"


section \<open>Publication dates (\<^verbatim>\<open>normalize_for_index\<close>, \<^verbatim>\<open>EUClient.iter_pdf_kind\<close>)\<close>

text \<open>\<^verbatim>\<open>s.endswith(t)\<close>.\<close>

definition endswith :: "string \<Rightarrow> string \<Rightarrow> bool" where
  "endswith s t = (length t \<le> length s \<and> drop (length s - length t) s = t)"

text \<open>
  \<^verbatim>\<open>normalize_for_index\<close> of the two Bundestag scripts (the same text in both). Its
  argument is a record of \<^verbatim>\<open>DIPClient\<close>, whose values are strings; \<^verbatim>\<open>d["id"]\<close>
  raises when the key is absent.
\<close>

definition normalize_for_index :: "(string \<rightharpoonup> string) \<Rightarrow> error + doc" where
  "normalize_for_index d =
     (let title = (case d ''titel'' of None \<Rightarrow> [] | Some t \<Rightarrow> t);
          datum = (case d ''datum'' of None \<Rightarrow> [] | Some t \<Rightarrow> t)
      in case d ''id'' of
           None \<Rightarrow> Inl (KeyError ''id'')
         | Some i \<Rightarrow>
             let url = (case d ''pdf_url'' of
                          None \<Rightarrow> ''https://dip.bundestag.de/vorgang/'' @ i
                        | Some u \<Rightarrow> if u \<noteq> [] then u
                                    else ''https://dip.bundestag.de/vorgang/'' @ i)
             in Inr [''id'' \<mapsto> Str i,
                     ''title'' \<mapsto> Str title,
                     ''source'' \<mapsto> Str ''bundestag'',
                     ''source_name'' \<mapsto> Str ''German Bundestag'',
                     ''publication_date'' \<mapsto>
                        Str (if endswith datum ''Z'' then datum
                             else if length datum = 10 then datum @ ''T00:00:00Z''
                             else datum),
                     ''url'' \<mapsto> Str url,
                     ''content'' \<mapsto> Str (case d ''text'' of None \<Rightarrow> [] | Some t \<Rightarrow> t),
                     ''language'' \<mapsto> Str ''de'',
                     ''metadata'' \<mapsto> Dict [] ])"

text \<open>
  \<^verbatim>\<open>s.replace(old, new)\<close> for a non-empty \<open>old\<close>: every occurrence, from the left,
  without overlaps.
\<close>

function replace :: "string \<Rightarrow> string \<Rightarrow> string \<Rightarrow> string" where
  "replace old new [] = []"
| "replace old new (c # cs) =
     (if old \<noteq> [] \<and> prefix old (c # cs)
      then new @ replace old new (drop (length old) (c # cs))
      else c # replace old new cs)"
  by pat_completeness auto
termination
  by (relation "measure (\<lambda>(old, new, s). length s)") (auto simp: neq_Nil_conv)

text \<open>
  What the library gives for \<^verbatim>\<open>datetime.fromisoformat(s)\<close>: an exception, a datetime
  without time zone, or one with a time zone, of which the code uses only
  \<^verbatim>\<open>dt.astimezone(timezone.utc).isoformat()\<close>, carried here.
\<close>

datatype parsed_datetime = ParseFailure | NaiveDatetime | AwareDatetime string

text \<open>
  The computation of \<^verbatim>\<open>pub_date\<close> from \<^verbatim>\<open>details.issued\<close> in
  \<^verbatim>\<open>EUClient.iter_pdf_kind\<close>.
\<close>

definition pub_date :: "(string \<Rightarrow> parsed_datetime) \<Rightarrow> string option \<Rightarrow> string option" where
  "pub_date fromisoformat issued =
     (case issued of
        None \<Rightarrow> None
      | Some pub \<Rightarrow>
          if pub = [] then None
          else (case fromisoformat (replace ''Z'' ''+00:00'' pub) of
                  AwareDatetime utc \<Rightarrow> Some (replace ''+00:00'' ''Z'' utc)
                | NaiveDatetime \<Rightarrow>
                    if length pub = 10 then Some (pub @ ''T00:00:00Z'') else Some (pub @ ''Z'')
                | ParseFailure \<Rightarrow>
                    if length pub = 10 then Some (pub @ ''T00:00:00Z'') else Some pub))"

text \<open>
  Following the spec: an absolute UTC instant string, that is, an ISO-8601 date and
  time of day with the designator \<^verbatim>\<open>Z\<close>, with or without a fraction of a second.
  In a pattern, \<^verbatim>\<open>d\<close> stands for a digit and every other character for itself.
\<close>

definition digit :: "char \<Rightarrow> bool" where
  "digit c = (c \<in> set ''0123456789'')"

fun matches :: "string \<Rightarrow> string \<Rightarrow> bool" where
  "matches [] [] = True"
| "matches (p # ps) (c # cs) = ((if p = CHR ''d'' then digit c else c = p) \<and> matches ps cs)"
| "matches ps cs = False"

definition utc_instant_string :: "string \<Rightarrow> bool" where
  "utc_instant_string s =
     (matches ''dddd-dd-ddTdd:dd:dd'' (take 19 s) \<and>
      (drop 19 s = ''Z'' \<or>
       (matches ''.d'' (take 2 (drop 19 s)) \<and> list_all digit (butlast (drop 21 s)) \<and>
        drop 21 s \<noteq> [] \<and> last s = CHR ''Z'')))"

text \<open>A record of the Bundestag client whose date carries a time of day without zone.\<close>

definition naive_record :: "string \<rightharpoonup> string" where
  "naive_record =
     [''id'' \<mapsto> ''4711'', ''titel'' \<mapsto> ''Plenarprotokoll 20/1'',
      ''datum'' \<mapsto> ''2025-08-01T10:30:00'', ''text'' \<mapsto> ''Beginn: 9.00 Uhr'']"

definition dated_record :: "string \<rightharpoonup> string" where
  "dated_record =
     [''id'' \<mapsto> ''4711'', ''titel'' \<mapsto> ''Plenarprotokoll 20/1'',
      ''datum'' \<mapsto> ''2025-08-01'', ''text'' \<mapsto> ''Beginn: 9.00 Uhr'']"

text \<open>The publication date of the document that a normalization returns.\<close>

definition published :: "error + doc \<Rightarrow> val" where
  "published r = (case r of Inl e \<Rightarrow> Null | Inr out \<Rightarrow> get out ''publication_date'')"

text \<open>What the library answers for three inputs: an offset time, a date, and the rest.\<close>

definition example_fromisoformat :: "string \<Rightarrow> parsed_datetime" where
  "example_fromisoformat s =
     (if s = ''2024-01-05T10:00:00+01:00'' then AwareDatetime ''2024-01-05T09:00:00+00:00''
      else if s = ''2024-01-05'' then NaiveDatetime
      else ParseFailure)"

text \<open>
  Following the spec: the document as the Canonicalizer returns it (the language
  defaulted, the time of ingestion stamped at the \<open>i\<close>-th reading of the clock), the
  stream of the canonical documents of an input stream, and the Deduplicator's rule on it:
  a document whose identifier was already seen in the run is dropped, any other is kept
  and its identifier is seen from then on. \<open>first_occurrences {}\<close> of a stream is the list
  of the first documents of each identifier, in the order of the stream.
\<close>

definition canonical :: "env \<Rightarrow> nat \<Rightarrow> doc \<Rightarrow> doc" where
  "canonical env i d =
     setdefault (setdefault d ''language'' (Str ''de'')) ''ingested_at''
       (Str (utcnow env i @ ''Z''))"

fun canonical_stream :: "env \<Rightarrow> nat \<Rightarrow> doc list \<Rightarrow> doc list" where
  "canonical_stream env i [] = []"
| "canonical_stream env i (d # ds) = canonical env i d # canonical_stream env (Suc i) ds"

fun first_occurrences :: "val set \<Rightarrow> doc list \<Rightarrow> doc list" where
  "first_occurrences seen [] = []"
| "first_occurrences seen (d # ds) =
     (if identifier_of d \<in> seen then first_occurrences seen ds
      else d # first_occurrences (insert (identifier_of d) seen) ds)"


section \<open>Search (\<^verbatim>\<open>search_service.search_documents\<close>)\<close>

text \<open>
  The request body is a JSON value; an object keeps the order in which the code writes
  its keys. \<open>JFloat m e\<close> is the decimal number \<open>m \<times> 10\<^sup>e\<close>.
\<close>

datatype json =
    JNull
  | JBool bool
  | JInt int
  | JFloat int int
  | JStr string
  | JArr "json list"
  | JObj "(string \<times> json) list"

text \<open>The value under a key of an object, and the value at the end of a path of keys.\<close>

fun field :: "json \<Rightarrow> string \<Rightarrow> json option" where
  "field (JObj kvs) k = map_of kvs k"
| "field j k = None"

fun at_path :: "json \<Rightarrow> string list \<Rightarrow> json option" where
  "at_path j [] = Some j"
| "at_path j (k # ks) = (case field j k of None \<Rightarrow> None | Some v \<Rightarrow> at_path v ks)"

text \<open>The four clauses of \<^verbatim>\<open>should_queries\<close>, in the order of the code.\<close>

definition cross_fields_clause :: "string \<Rightarrow> json" where
  "cross_fields_clause query =
     JObj [(''multi_match'',
            JObj [(''query'', JStr query),
                  (''fields'', JArr [JStr ''title^2'', JStr ''content'']),
                  (''type'', JStr ''cross_fields''),
                  (''operator'', JStr ''and''),
                  (''boost'', JInt 3)])]"

definition phrase_clause :: "string \<Rightarrow> int \<Rightarrow> string \<Rightarrow> json" where
  "phrase_clause fld boost query =
     JObj [(''match_phrase'',
            JObj [(fld, JObj [(''query'', JStr query), (''boost'', JInt boost),
                              (''slop'', JInt 2)])])]"

definition fuzzy_clause :: "string \<Rightarrow> json" where
  "fuzzy_clause query =
     JObj [(''multi_match'',
            JObj [(''query'', JStr query),
                  (''fields'', JArr [JStr ''title^2'', JStr ''content'']),
                  (''type'', JStr ''best_fields''),
                  (''operator'', JStr ''or''),
                  (''fuzziness'', JStr ''AUTO''),
                  (''fuzzy_transpositions'', JBool True),
                  (''boost'', JFloat 2 (- 1))])]"

definition should_queries :: "string \<Rightarrow> json list" where
  "should_queries query =
     [cross_fields_clause query, phrase_clause ''title'' 4 query,
      phrase_clause ''content'' 2 query, fuzzy_clause query]"

text \<open>Truth of an optional string and of an optional list, as \<^verbatim>\<open>if query:\<close> tests it.\<close>

definition given :: "'a list option \<Rightarrow> bool" where
  "given x = (case x of None \<Rightarrow> False | Some xs \<Rightarrow> xs \<noteq> [])"

definition terms_filter :: "string \<Rightarrow> string list \<Rightarrow> json" where
  "terms_filter fld vs = JObj [(''terms'', JObj [(fld, JArr (map JStr vs))])]"

definition highlight_directive :: json where
  "highlight_directive =
     JObj [(''pre_tags'', JArr [JStr ''<mark>'']),
           (''post_tags'', JArr [JStr ''</mark>'']),
           (''require_field_match'', JBool False),
           (''fields'',
            JObj [(''content'',
                   JObj [(''fragment_size'', JInt 180), (''number_of_fragments'', JInt 1),
                         (''no_match_size'', JInt 180), (''order'', JStr ''score'')]),
                  (''title'', JObj [(''number_of_fragments'', JInt 0)])])]"

text \<open>The \<^verbatim>\<open>body\<close> that \<^verbatim>\<open>search_documents\<close> sends to the store.\<close>

definition search_body ::
  "string option \<Rightarrow> string list option \<Rightarrow> string list option \<Rightarrow> string option \<Rightarrow>
   string option \<Rightarrow> int \<Rightarrow> int \<Rightarrow> json"
where
  "search_body query sources doc_types date_from date_to page size' =
     (let must =
            (case query of
               None \<Rightarrow> []
             | Some q \<Rightarrow>
                 if q \<noteq> [] then
                   [JObj [(''bool'', JObj [(''should'', JArr (should_queries q)),
                                          (''minimum_should_match'', JInt 1)])] ]
                 else []);
          filter_clauses =
            (case sources of
               None \<Rightarrow> []
             | Some ss \<Rightarrow> if ss \<noteq> [] then [terms_filter ''source'' ss] else []) @
            (case doc_types of
               None \<Rightarrow> []
             | Some ts \<Rightarrow>
                 if ts \<noteq> [] then [terms_filter ''metadata.document_type'' ts] else []) @
            (if given date_from \<or> given date_to then
               [JObj [(''range'',
                       JObj [(''publication_date'',
                              JObj ((case date_from of
                                       None \<Rightarrow> []
                                     | Some f \<Rightarrow> if f \<noteq> [] then [(''gte'', JStr f)] else []) @
                                    (case date_to of
                                       None \<Rightarrow> []
                                     | Some t \<Rightarrow> if t \<noteq> [] then [(''lte'', JStr t)] else [])))])] ]
             else [])
      in JObj
           ([(''query'',
              JObj [(''bool'',
                     JObj [(''must'',
                            JArr (if must \<noteq> [] then must
                                  else [JObj [(''match_all'', JObj [])] ])),
                           (''filter'', JArr filter_clauses)])]),
             (''from'', JInt ((page - 1) * size')),
             (''size'', JInt size'),
             (''aggs'',
              JObj [(''sources'', JObj [(''terms'', JObj [(''field'', JStr ''source'')])]),
                    (''doc_types'',
                     JObj [(''terms'', JObj [(''field'', JStr ''metadata.document_type'')])])]),
             (''_source'',
              JArr [JStr ''id'', JStr ''title'', JStr ''source'', JStr ''publication_date'',
                    JStr ''url'', JStr ''content'', JStr ''metadata.document_type''])] @
            (if given query then [(''highlight'', highlight_directive)] else [])))"

text \<open>
  A hit of the store's response. The texts of a hit are sequences of Unicode code
  points, which is what \<^verbatim>\<open>len\<close> and a slice of a Python string count. A value of
  \<^verbatim>\<open>_source\<close> is absent, null (\<open>Some None\<close>) or a text; \<^verbatim>\<open>highlight\<close> is absent (or
  null) or maps a field to its fragments.
\<close>

type_synonym unicode = "nat list"

record raw_hit =
  hit_id :: "unicode option"
  hit_source :: "string \<rightharpoonup> unicode option"
  hit_highlight :: "(string \<rightharpoonup> unicode list) option"

text \<open>The ellipsis U+2026 that marks a truncated excerpt.\<close>

definition ellipsis :: unicode where
  "ellipsis = [8230]"

text \<open>\<^verbatim>\<open>src.get(k)\<close>, and \<^verbatim>\<open>hl.get(k) or []\<close> with \<^verbatim>\<open>hl = h.get("highlight", {}) or {}\<close>.\<close>

definition src_get :: "raw_hit \<Rightarrow> string \<Rightarrow> unicode option" where
  "src_get h k = (case hit_source h k of None \<Rightarrow> None | Some v \<Rightarrow> v)"

definition frags :: "raw_hit \<Rightarrow> string \<Rightarrow> unicode list" where
  "frags h k =
     (case hit_highlight h of
        None \<Rightarrow> []
      | Some hl \<Rightarrow> (case hl k of None \<Rightarrow> [] | Some fs \<Rightarrow> fs))"

text \<open>The snippet that the loop over the hits computes.\<close>

definition snippet :: "raw_hit \<Rightarrow> unicode option" where
  "snippet h =
     (let content_frags = frags h ''content'';
          title_frags = frags h ''title''
      in case content_frags of
           f # fs \<Rightarrow> Some f
         | [] \<Rightarrow>
             (case title_frags of
                t # ts \<Rightarrow> Some t
              | [] \<Rightarrow>
                  (case src_get h ''content'' of
                     None \<Rightarrow> None
                   | Some c \<Rightarrow>
                       if c \<noteq> [] then
                         (if length c > 300 then Some (take 300 c @ ellipsis) else Some c)
                       else None)))"

record shaped_hit =
  s_id :: "unicode option"
  s_title :: "unicode option"
  s_source :: "unicode option"
  s_publication_date :: "unicode option"
  s_url :: "unicode option"
  s_snippet :: "unicode option"

definition shape_hit :: "raw_hit \<Rightarrow> shaped_hit" where
  "shape_hit h =
     \<lparr>s_id = (if given (src_get h ''id'') then src_get h ''id'' else hit_id h),
      s_title = src_get h ''title'',
      s_source = src_get h ''source'',
      s_publication_date = src_get h ''publication_date'',
      s_url = src_get h ''url'',
      s_snippet = snippet h\<rparr>"

text \<open>
  The response of the store to a search, as far as the code reads it, and the result of
  \<^verbatim>\<open>search_documents\<close>; the search of the store client is taken from outside and may
  raise.
\<close>

record search_response =
  resp_hits :: "raw_hit list"
  resp_total :: int
  resp_agg_sources :: "json list"
  resp_agg_doc_types :: "json list"

record search_result =
  r_total :: int
  r_page :: int
  r_size :: int
  r_hits :: "shaped_hit list"
  r_agg_sources :: "json list"
  r_agg_doc_types :: "json list"

definition search_documents ::
  "env \<Rightarrow> (string \<Rightarrow> json \<Rightarrow> error + search_response) \<Rightarrow> string option \<Rightarrow>
   string list option \<Rightarrow> string list option \<Rightarrow> string option \<Rightarrow> string option \<Rightarrow>
   int \<Rightarrow> int \<Rightarrow> error + search_result"
where
  "search_documents env search query sources doc_types date_from date_to page size' =
     (case search (os_index env)
             (search_body query sources doc_types date_from date_to page size') of
        Inl e \<Rightarrow> Inl e
      | Inr resp \<Rightarrow>
          Inr \<lparr>r_total = resp_total resp, r_page = page, r_size = size',
               r_hits = map shape_hit (resp_hits resp),
               r_agg_sources = resp_agg_sources resp,
               r_agg_doc_types = resp_agg_doc_types resp\<rparr>)"

text \<open>
  Hits for the fallback: one without highlight whose stored content has 301 characters,
  one whose content has 300, one with a highlighted title only.
\<close>

definition long_hit :: raw_hit where
  "long_hit =
     \<lparr>hit_id = Some [49], hit_source = [''content'' \<mapsto> Some (replicate 301 97)],
      hit_highlight = None\<rparr>"

definition short_hit :: raw_hit where
  "short_hit =
     \<lparr>hit_id = Some [50], hit_source = [''content'' \<mapsto> Some (replicate 300 97)],
      hit_highlight = Some Map.empty\<rparr>"

definition title_hit :: raw_hit where
  "title_hit =
     \<lparr>hit_id = Some [51], hit_source = [''content'' \<mapsto> Some (replicate 301 97)],
      hit_highlight = Some [''title'' \<mapsto> [ [60, 109, 62] ], ''content'' \<mapsto> [] ]\<rparr>"

definition content_hit :: raw_hit where
  "content_hit =
     \<lparr>hit_id = Some [52], hit_source = Map.empty,
      hit_highlight = Some [''title'' \<mapsto> [ [60, 109, 62] ], ''content'' \<mapsto> [ [72, 50], [79] ] ]\<rparr>"

definition empty_hit :: raw_hit where
  "empty_hit =
     \<lparr>hit_id = Some [53], hit_source = [''content'' \<mapsto> Some [] ], hit_highlight = None\<rparr>"

text \<open>The elements of the array at the end of a path of keys.\<close>

definition array_at :: "json \<Rightarrow> string list \<Rightarrow> json list" where
  "array_at j ks = (case at_path j ks of Some (JArr xs) \<Rightarrow> xs | _ \<Rightarrow> [])"


section \<open>Properties of the cursor pagination\<close>

text \<open>
  One turn of the loop, for the request that the run makes at step \<open>n\<close>: it is the last
  one when the page is a last page or the request fails, and otherwise the loop goes on
  with the token of the page.
\<close>

lemma loop_step_end:
  "ends_at srv n \<Longrightarrow>
   paginate_loop srv n (cursor_sent srv n) acc =
     Some (acc @ items_of_request srv n, Suc n, failed_request srv n)"
  by (subst paginate_loop.simps)
     (auto simp: ends_at_def last_page_def failed_request_def items_of_request_def
           split: sum.splits)

lemma loop_step_continue:
  "\<not> ends_at srv n \<Longrightarrow>
   paginate_loop srv n (cursor_sent srv n) acc =
     paginate_loop srv (Suc n) (cursor_sent srv (Suc n)) (acc @ items_of_request srv n)"
  by (subst paginate_loop.simps)
     (auto simp: ends_at_def last_page_def failed_request_def items_of_request_def
           split: sum.splits)

text \<open>
  The whole run, by induction on the number of pages before the one that ends it.
\<close>

lemma loop_runs_to_end:
  "ends_at srv (n + d) \<Longrightarrow> \<forall>j. n \<le> j \<and> j < n + d \<longrightarrow> \<not> ends_at srv j \<Longrightarrow>
   paginate_loop srv n (cursor_sent srv n) acc =
     Some (acc @ concat (map (items_of_request srv) [n..<Suc (n + d)]), Suc (n + d),
           failed_request srv (n + d))"
proof (induction d arbitrary: n acc)
  case 0
  then show ?case by (simp add: loop_step_end)
next
  case (Suc d)
  have ne: "\<not> ends_at srv n" using Suc.prems(2) by simp
  have e: "ends_at srv (Suc n + d)" using Suc.prems(1) by simp
  have a: "\<forall>j. Suc n \<le> j \<and> j < Suc n + d \<longrightarrow> \<not> ends_at srv j"
    using Suc.prems(2) by simp
  have up: "concat (map (items_of_request srv) [n..<Suc (Suc (n + d))]) =
            items_of_request srv n @ concat (map (items_of_request srv) [Suc n..<Suc (Suc (n + d))])"
    by (subst upt_rec) simp
  have "paginate_loop srv n (cursor_sent srv n) acc =
        paginate_loop srv (Suc n) (cursor_sent srv (Suc n)) (acc @ items_of_request srv n)"
    by (rule loop_step_continue [OF ne])
  also have "\<dots> = Some ((acc @ items_of_request srv n) @
                   concat (map (items_of_request srv) [Suc n..<Suc (Suc n + d)]),
                 Suc (Suc n + d), failed_request srv (Suc n + d))"
    by (rule Suc.IH [OF e a])
  finally show ?case
    by (simp add: up del: upt_Suc)
qed

lemma first_end:
  assumes "ends_at srv k"
  obtains m where "m \<le> k" "ends_at srv m" "\<forall>j<m. \<not> ends_at srv j"
proof -
  let ?m = "LEAST j. ends_at srv j"
  have "ends_at srv ?m" using assms by (rule LeastI)
  moreover have "?m \<le> k" using assms by (rule Least_le)
  moreover have "\<forall>j<?m. \<not> ends_at srv j" using not_less_Least by blast
  ultimately show thesis using that by blast
qed

text \<open>
  Claim C1. Cursor pagination terminates: whenever some page \<open>k\<close> of the run returns no
  cursor token, or returns the token that the page before it returned, the generator of
  \<^verbatim>\<open>_paginate_cursor\<close> ends (the result is not \<open>None\<close>), and it has made at most
  \<open>k + 1\<close> requests: none after page \<open>k\<close>.
\<close>

theorem paginate_cursor_terminates:
  assumes "last_page srv k"
  shows "\<exists>ys n e. paginate_cursor srv = Some (ys, n, e) \<and> n \<le> Suc k"
proof -
  from assms have "ends_at srv k" by (simp add: ends_at_def)
  then obtain m where m: "m \<le> k" "ends_at srv m" "\<forall>j<m. \<not> ends_at srv j"
    by (rule first_end)
  have "paginate_loop srv 0 (cursor_sent srv 0) [] =
     Some ([] @ concat (map (items_of_request srv) [0..<Suc (0 + m)]), Suc (0 + m),
           failed_request srv (0 + m))"
    by (rule loop_runs_to_end) (use m in auto)
  then show ?thesis using m(1) by (simp add: paginate_cursor_def)
qed

text \<open>The stale server repeats its token on the second page, and the run ends there.\<close>

lemmas server_eval =
  last_page_def failed_request_def items_of_request_def ends_at_def fetch_page_def
  no_cursor_def page_docs_def

theorem paginate_cursor_terminates_witness:
  "last_page stale_server (Suc 0) \<and>
   (\<exists>ys n e. paginate_cursor stale_server = Some (ys, n, e) \<and> n \<le> Suc (Suc 0))"
  using paginate_cursor_terminates [of stale_server "Suc 0"]
  by (simp add: server_eval stale_server_def)

text \<open>
  Claim C7, as amended. A page request that fails (no response, an error status, a body
  that cannot be read) is not retried: when request \<open>k\<close> of the run fails, the generator
  has made exactly \<open>k + 1\<close> requests, one for each page before and one for the failing
  page, it raises the error of that request, and it has yielded the items of the \<open>k\<close>
  pages before.
\<close>

theorem failed_request_is_not_retried:
  assumes "failed_request srv k = Some e" "\<forall>j<k. \<not> ends_at srv j"
  shows "paginate_cursor srv =
           Some (concat (map (items_of_request srv) [0..<k]), Suc k, Some e)"
proof -
  have e: "ends_at srv (0 + k)" using assms(1) by (simp add: ends_at_def)
  have n: "\<forall>j. 0 \<le> j \<and> j < 0 + k \<longrightarrow> \<not> ends_at srv j" using assms(2) by simp
  have "items_of_request srv k = []"
    using assms(1) by (simp add: failed_request_def items_of_request_def split: sum.splits)
  then show ?thesis
    using loop_runs_to_end [OF e n, of "[]"] assms(1) by (simp add: paginate_cursor_def)
qed

theorem failed_request_is_not_retried_witness:
  "failed_request timeout_server (Suc 0) = Some RequestException \<and>
   paginate_cursor timeout_server = Some ([''doc''], Suc (Suc 0), Some RequestException)"
  using failed_request_is_not_retried [of timeout_server "Suc 0" RequestException]
  by (simp add: server_eval timeout_server_def)

text \<open>
  Claim C7 as stated fails: the first request to the flaky server gets a 503, a second
  request would get a page, and the generator raises after one request.
\<close>

theorem retry_counterexample:
  "fetch_page (flaky_server 1 None) =
     Inr \<lparr>documents = Some [''doc''], data = None, cursor = None\<rparr> \<and>
   paginate_cursor flaky_server = Some ([], 1, Some (HTTPError 503))"
  by (simp add: paginate_cursor_def paginate_loop.simps [of flaky_server 0] fetch_page_def
      flaky_server_def)


section \<open>Properties of the ingestion run\<close>

lemma get_setdefault:
  "k \<noteq> k' \<Longrightarrow> get (setdefault d k' v) k = get d k"
  by (simp add: get_def setdefault_def split: option.splits)

lemma validate_doc_shape_eq:
  "validate_doc_shape now d =
     (if missing_fields d = [] then
        Inr (setdefault (setdefault d ''language'' (Str ''de'')) ''ingested_at'' (Str (now @ ''Z'')))
      else Inl (ValueError (missing_fields d)))"
  by (simp add: validate_doc_shape_def missing_fields_def get_setdefault Let_def)

lemma missing_fields_Nil: "missing_fields d = [] \<longleftrightarrow> valid_doc d"
  by (simp add: missing_fields_def valid_doc_def)

lemma validate_Inr:
  assumes "validate_doc_shape now d = Inr out"
  shows "valid_doc d" "valid_doc out" "get out ''id'' = get d ''id''"
    "get out ''url'' = get d ''url''" "identifier_of out = identifier_of d"
  using assms
  by (auto simp: validate_doc_shape_eq missing_fields_Nil valid_doc_def get_setdefault
      identifier_of_def split: if_splits)

lemma valid_truthy_identifier: "valid_doc d \<Longrightarrow> truthy (identifier_of d)"
  by (simp add: valid_doc_def identifier_of_def py_or_def)

lemma flush_cases:
  obtains (raised) e where "flush env bulk s = (Some e, s\<lparr>flushed := flushed s @ [batch s]\<rparr>)"
  | (written) res where "index_documents env bulk (batch s) = Inr res"
      "flush env bulk s =
         (None, s\<lparr>flushed := flushed s @ [batch s], total := total s + success res, batch := []\<rparr>)"
  by (cases "index_documents env bulk (batch s)") (auto simp: flush_def Let_def)

lemma run_inv_init: "run_inv init_state"
  by (simp add: run_inv_def init_state_def handed_over_def)

lemma run_inv_log_ok: "run_inv s \<Longrightarrow> log_ok (flushed s)"
  by (auto simp: run_inv_def log_ok_def handed_over_def)

lemma run_inv_log_ok_flush: "run_inv s \<Longrightarrow> log_ok (flushed s @ [batch s])"
  by (simp add: run_inv_def log_ok_def handed_over_def)

lemma run_inv_add:
  assumes "run_inv s" "valid_doc c" "hashable (identifier_of c)" "identifier_of c \<notin> seen_ids s"
  shows "run_inv (s\<lparr>seen_ids := insert (identifier_of c) (seen_ids s), batch := batch s @ [c]\<rparr>)"
  using assms by (auto simp: run_inv_def handed_over_def)

lemma run_inv_flushed:
  assumes "run_inv s"
  shows "run_inv (s\<lparr>flushed := flushed s @ [batch s], total := n, batch := []\<rparr>)"
  using assms by (simp add: run_inv_def handed_over_def)

lemma run_loop_inv:
  assumes "run_inv s" "run_loop env bulk bs i docs s = (r, s')"
  shows "(r = None \<longrightarrow> run_inv s' \<and> seen_ids s' = seen_ids s \<union> identifier_of ` set docs) \<and>
         log_ok (flushed s')"
  using assms
proof (induction docs arbitrary: i s)
  case Nil
  then show ?case by (auto simp: run_inv_log_ok)
next
  case (Cons d docs)
  show ?case
  proof (cases "validate_doc_shape (utcnow env i) d")
    case (Inl e)
    with Cons.prems show ?thesis by (auto simp: run_inv_log_ok)
  next
    case (Inr clean)
    note v = validate_Inr [OF Inr]
    have id: "py_or (get clean ''id'') (get clean ''url'') = identifier_of d"
      using v(5) by (simp add: identifier_of_def)
    have t: "truthy (identifier_of d)"
      using v(1) by (rule valid_truthy_identifier)
    show ?thesis
    proof (cases "hashable (identifier_of d)")
      case False
      with Cons.prems Inr id t show ?thesis by (auto simp: run_inv_log_ok)
    next
      case h: True
      show ?thesis
      proof (cases "identifier_of d \<in> seen_ids s")
        case True
        with Cons.prems(2) Inr id t h
        have "run_loop env bulk bs (Suc i) docs s = (r, s')" by simp
        from Cons.IH [OF Cons.prems(1) this] True show ?thesis by auto
      next
        case False
        define s2 where
          "s2 = s\<lparr>seen_ids := insert (identifier_of clean) (seen_ids s), batch := batch s @ [clean]\<rparr>"
        have inv2: "run_inv s2"
          unfolding s2_def using Cons.prems(1) v(2) h False v(5)
          by (intro run_inv_add) simp_all
        have seen2: "seen_ids s2 = insert (identifier_of d) (seen_ids s)"
          by (simp add: s2_def v(5))
        have step: "run_loop env bulk bs i (d # docs) s =
            (if int (length (batch s2)) \<ge> bs
             then (case flush env bulk s2 of
                     (Some e, s3) \<Rightarrow> (Some e, s3)
                   | (None, s3) \<Rightarrow> run_loop env bulk bs (Suc i) docs s3)
             else run_loop env bulk bs (Suc i) docs s2)"
          using Inr id t h False by (simp add: s2_def v(5) Let_def)
        show ?thesis
        proof (cases "int (length (batch s2)) \<ge> bs")
          case False
          with step Cons.prems(2) have "run_loop env bulk bs (Suc i) docs s2 = (r, s')" by simp
          from Cons.IH [OF inv2 this] seen2 show ?thesis by auto
        next
          case True
          show ?thesis
          proof (cases rule: flush_cases [of env bulk s2])
            case (raised e)
            with step True Cons.prems(2)
            have "r = Some e" "s' = s2\<lparr>flushed := flushed s2 @ [batch s2]\<rparr>" by simp_all
            then show ?thesis using run_inv_log_ok_flush [OF inv2] by simp
          next
            case (written res)
            define s3 where "s3 = s2\<lparr>flushed := flushed s2 @ [batch s2],
              total := total s2 + success res, batch := []\<rparr>"
            have inv3: "run_inv s3" unfolding s3_def using inv2 by (rule run_inv_flushed)
            have "run_loop env bulk bs (Suc i) docs s3 = (r, s')"
              using step True Cons.prems(2) written(2) by (simp add: s3_def)
            from Cons.IH [OF inv3 this] seen2 show ?thesis by (auto simp: s3_def)
          qed
        qed
      qed
    qed
  qed
qed

lemma assign_id_ok:
  assumes "valid_doc d" "hashable (identifier_of d)"
  shows "\<exists>d'. assign_id env d = Inr d'"
proof (cases "truthy (get d ''id'')")
  case True
  then show ?thesis by (simp add: assign_id_def)
next
  case False
  with assms have "hashable (get d ''url'')" "truthy (get d ''url'')"
    by (simp_all add: identifier_of_def py_or_def valid_doc_def)
  then obtain u where "get d ''url'' = Str u" by (cases "get d ''url''") simp_all
  then show ?thesis by (simp add: assign_id_def doc_id_def)
qed

lemma gen_actions_ok:
  assumes "\<forall>d \<in> set ds. valid_doc d \<and> hashable (identifier_of d)"
  shows "\<exists>r. gen_actions env index ds = Inr r"
  using assms
proof (induction ds)
  case Nil
  then show ?case by simp
next
  case (Cons d ds)
  then obtain d' r where "assign_id env d = Inr d'" "gen_actions env index ds = Inr r"
    using assign_id_ok [of d env] by auto
  then show ?case by (cases r) simp
qed

lemma index_documents_ok:
  assumes "\<forall>d \<in> set ds. valid_doc d \<and> hashable (identifier_of d)" "\<forall>acts e. bulk acts \<noteq> Inl e"
  shows "\<exists>res. index_documents env bulk ds = Inr res"
proof -
  obtain ds' acts where g: "gen_actions env (os_index env) ds = Inr (ds', acts)"
    using gen_actions_ok [OF assms(1)] by fastforce
  obtain n errs where "bulk acts = Inr (n, errs)"
    using assms(2) by (cases "bulk acts") auto
  with g show ?thesis by (simp add: index_documents_def)
qed

lemma flush_ok:
  assumes "run_inv s" "\<forall>acts e. bulk acts \<noteq> Inl e"
  shows "fst (flush env bulk s) = None"
proof -
  have "\<forall>d \<in> set (batch s). valid_doc d \<and> hashable (identifier_of d)"
    using assms(1) by (simp add: run_inv_def handed_over_def)
  from index_documents_ok [OF this assms(2)]
  obtain res where "index_documents env bulk (batch s) = Inr res" by blast
  then show ?thesis by (simp add: flush_def Let_def)
qed

lemma run_loop_ok:
  assumes "run_inv s" "\<forall>d \<in> set docs. valid_doc d \<and> hashable (identifier_of d)"
    "\<forall>acts e. bulk acts \<noteq> Inl e"
  shows "fst (run_loop env bulk bs i docs s) = None"
  using assms(1,2)
proof (induction docs arbitrary: i s)
  case Nil
  then show ?case by simp
next
  case (Cons d docs)
  obtain r s' where rs: "run_loop env bulk bs i (d # docs) s = (r, s')" by fastforce
  have "valid_doc d" using Cons.prems(2) by simp
  then obtain clean where c: "validate_doc_shape (utcnow env i) d = Inr clean"
    by (simp add: validate_doc_shape_eq missing_fields_Nil)
  note v = validate_Inr [OF c]
  have id: "py_or (get clean ''id'') (get clean ''url'') = identifier_of d"
    using v(5) by (simp add: identifier_of_def)
  have h: "hashable (identifier_of d)" using Cons.prems(2) by simp
  have rest: "\<forall>d \<in> set docs. valid_doc d \<and> hashable (identifier_of d)"
    using Cons.prems(2) by simp
  show ?case
  proof (cases "identifier_of d \<in> seen_ids s")
    case True
    then have "run_loop env bulk bs i (d # docs) s = run_loop env bulk bs (Suc i) docs s"
      using c id h valid_truthy_identifier [OF v(1)] by simp
    then show ?thesis using Cons.IH [OF Cons.prems(1) rest] by simp
  next
    case False
    define s2 where
      "s2 = s\<lparr>seen_ids := insert (identifier_of clean) (seen_ids s), batch := batch s @ [clean]\<rparr>"
    have inv2: "run_inv s2"
      unfolding s2_def using Cons.prems(1) v(2) h False v(5)
      by (intro run_inv_add) simp_all
    have t: "truthy (identifier_of d)"
      using v(1) by (rule valid_truthy_identifier)
    have step: "run_loop env bulk bs i (d # docs) s =
        (if int (length (batch s2)) \<ge> bs
         then (case flush env bulk s2 of
                 (Some e, s3) \<Rightarrow> (Some e, s3)
               | (None, s3) \<Rightarrow> run_loop env bulk bs (Suc i) docs s3)
         else run_loop env bulk bs (Suc i) docs s2)"
      using c id t h False by (simp add: s2_def v(5) Let_def)
    show ?thesis
    proof (cases "int (length (batch s2)) \<ge> bs")
      case False
      with step show ?thesis using Cons.IH [OF inv2 rest] by simp
    next
      case True
      show ?thesis
      proof (cases rule: flush_cases [of env bulk s2])
        case (raised e)
        with flush_ok [OF inv2 assms(3), of env] show ?thesis by simp
      next
        case (written res)
        have "run_inv (s2\<lparr>flushed := flushed s2 @ [batch s2],
              total := total s2 + success res, batch := []\<rparr>)"
          using inv2 by (rule run_inv_flushed)
        from Cons.IH [OF this rest] step True written(2) show ?thesis by simp
      qed
    qed
  qed
qed

lemma run_loop_append:
  "run_loop env bulk bs i (xs @ ys) s =
     (case run_loop env bulk bs i xs s of
        (Some e, s') \<Rightarrow> (Some e, s')
      | (None, s') \<Rightarrow> run_loop env bulk bs (i + length xs) ys s')"
proof (induction xs arbitrary: i s)
  case Nil
  then show ?case by simp
next
  case (Cons x xs)
  show ?case
    by (simp add: Cons.IH Let_def split: sum.splits prod.splits option.splits)
qed

lemma run_and_index_log_ok: "log_ok (snd (run_and_index env bulk docs bs))"
proof -
  obtain r s where rs: "run_loop env bulk bs 0 docs init_state = (r, s)" by fastforce
  note inv = run_loop_inv [OF run_inv_init rs]
  show ?thesis
  proof (cases r)
    case (Some e)
    with rs inv show ?thesis by (simp add: run_and_index_def)
  next
    case None
    with inv have i: "run_inv s" by simp
    show ?thesis
    proof (cases "batch s = []")
      case True
      with rs None inv show ?thesis by (simp add: run_and_index_def)
    next
      case False
      show ?thesis
        by (cases rule: flush_cases [of env bulk s])
          (use rs None False run_inv_log_ok_flush [OF i] in \<open>simp_all add: run_and_index_def\<close>)
    qed
  qed
qed

lemma run_and_index_complete:
  assumes "fst (run_and_index env bulk docs bs) = Inr n"
  shows "identifier_of ` set (concat (snd (run_and_index env bulk docs bs))) = identifier_of ` set docs"
proof -
  obtain r s where rs: "run_loop env bulk bs 0 docs init_state = (r, s)" by fastforce
  note inv = run_loop_inv [OF run_inv_init rs]
  have r: "r = None" using assms rs by (cases r) (simp_all add: run_and_index_def)
  with inv have i: "run_inv s" and seen: "seen_ids s = identifier_of ` set docs"
    by (simp_all add: init_state_def)
  have h: "identifier_of ` set (handed_over s) = identifier_of ` set docs"
    using i seen by (simp add: run_inv_def)
  show ?thesis
  proof (cases "batch s = []")
    case True
    with rs r h show ?thesis by (simp add: run_and_index_def handed_over_def)
  next
    case False
    show ?thesis
    proof (cases rule: flush_cases [of env bulk s])
      case (raised e)
      with rs r False assms show ?thesis by (simp add: run_and_index_def)
    next
      case (written res)
      with rs r False h show ?thesis by (simp add: run_and_index_def handed_over_def)
    qed
  qed
qed

lemma run_and_index_ok:
  assumes "\<forall>d \<in> set docs. valid_doc d \<and> hashable (identifier_of d)" "\<forall>acts e. bulk acts \<noteq> Inl e"
  shows "\<exists>n. fst (run_and_index env bulk docs bs) = Inr n"
proof -
  obtain r s where rs: "run_loop env bulk bs 0 docs init_state = (r, s)" by fastforce
  have r: "r = None"
    using run_loop_ok [OF run_inv_init assms, of env bs 0] rs by simp
  have i: "run_inv s" using run_loop_inv [OF run_inv_init rs] r by simp
  show ?thesis
  proof (cases "batch s = []")
    case True
    with rs r show ?thesis by (simp add: run_and_index_def)
  next
    case False
    show ?thesis
    proof (cases rule: flush_cases [of env bulk s])
      case (raised e)
      with flush_ok [OF i assms(2), of env] show ?thesis by simp
    next
      case (written res)
      with rs r False show ?thesis by (simp add: run_and_index_def)
    qed
  qed
qed

lemma distinct_count_list_one:
  "distinct xs \<Longrightarrow> x \<in> set xs \<Longrightarrow> count_list xs x = 1"
  by (induction xs) auto

text \<open>The definitions that a run on a concrete input unfolds.\<close>

lemmas run_eval =
  run_and_index_def init_state_def flush_def index_documents_def assign_id_def doc_id_def
  validate_doc_shape_def setdefault_def get_def py_or_def example_env_def store_ok_def
  example_doc_def Let_def identifier_of_def

text \<open>
  The documents that a run accepts are the first occurrences of the canonical stream,
  in its order: the loop appends to them, and what has been handed to the store is
  always an initial part of them.
\<close>

lemma validate_canonical:
  "validate_doc_shape (utcnow env i) d =
     (if missing_fields d = [] then Inr (canonical env i d)
      else Inl (ValueError (missing_fields d)))"
  by (simp add: validate_doc_shape_eq canonical_def)

lemma identifier_of_canonical: "identifier_of (canonical env i d) = identifier_of d"
  by (simp add: identifier_of_def canonical_def get_setdefault)

lemma prefix_flushed: "prefix (concat (flushed s)) (handed_over s @ xs)"
  by (simp add: handed_over_def)

lemma prefix_flushed_Nil: "prefix (concat (flushed s)) (handed_over s)"
  by (simp add: handed_over_def)

lemma run_loop_stream:
  assumes "run_loop env bulk bs i docs s = (r, s')"
  shows "(r = None \<longrightarrow>
            handed_over s' =
              handed_over s @ first_occurrences (seen_ids s) (canonical_stream env i docs)) \<and>
         prefix (concat (flushed s'))
           (handed_over s @ first_occurrences (seen_ids s) (canonical_stream env i docs))"
  using assms
proof (induction docs arbitrary: i s)
  case Nil
  then show ?case by (auto simp: prefix_flushed_Nil)
next
  case (Cons d docs)
  show ?case
  proof (cases "missing_fields d = []")
    case False
    with Cons.prems show ?thesis by (auto simp: validate_canonical prefix_flushed)
  next
    case True
    define clean where "clean = canonical env i d"
    have c: "validate_doc_shape (utcnow env i) d = Inr clean"
      using True by (simp add: validate_canonical clean_def)
    have ic: "identifier_of clean = identifier_of d"
      by (simp add: clean_def identifier_of_canonical)
    have id: "py_or (get clean ''id'') (get clean ''url'') = identifier_of d"
      using ic by (simp add: identifier_of_def)
    have t: "truthy (identifier_of d)"
      using True by (simp add: missing_fields_Nil valid_truthy_identifier)
    show ?thesis
    proof (cases "hashable (identifier_of d)")
      case False
      with Cons.prems c id t show ?thesis by (auto simp: prefix_flushed)
    next
      case h: True
      show ?thesis
      proof (cases "identifier_of d \<in> seen_ids s")
        case True
        with Cons.prems c id t h
        have "run_loop env bulk bs (Suc i) docs s = (r, s')" by simp
        moreover have "first_occurrences (seen_ids s) (canonical_stream env i (d # docs)) =
                  first_occurrences (seen_ids s) (canonical_stream env (Suc i) docs)"
          using True by (simp add: clean_def [symmetric] ic)
        ultimately show ?thesis using Cons.IH by presburger
      next
        case False
        define s2 where
          "s2 = s\<lparr>seen_ids := insert (identifier_of d) (seen_ids s), batch := batch s @ [clean]\<rparr>"
        have h2: "handed_over s2 = handed_over s @ [clean]"
          by (simp add: s2_def handed_over_def)
        have fo: "first_occurrences (seen_ids s) (canonical_stream env i (d # docs)) =
                  clean # first_occurrences (seen_ids s2) (canonical_stream env (Suc i) docs)"
          using False by (simp add: clean_def [symmetric] ic s2_def)
        have step: "run_loop env bulk bs i (d # docs) s =
            (if int (length (batch s2)) \<ge> bs
             then (case flush env bulk s2 of
                     (Some e, s3) \<Rightarrow> (Some e, s3)
                   | (None, s3) \<Rightarrow> run_loop env bulk bs (Suc i) docs s3)
             else run_loop env bulk bs (Suc i) docs s2)"
          using c id t h False by (simp add: s2_def Let_def)
        show ?thesis
        proof (cases "int (length (batch s2)) \<ge> bs")
          case False
          with step Cons.prems have "run_loop env bulk bs (Suc i) docs s2 = (r, s')" by simp
          from Cons.IH [OF this] show ?thesis unfolding fo by (simp add: h2)
        next
          case True
          show ?thesis
          proof (cases rule: flush_cases [of env bulk s2])
            case (raised e)
            with step True Cons.prems
            have "r = Some e" "s' = s2\<lparr>flushed := flushed s2 @ [batch s2]\<rparr>" by simp_all
            then show ?thesis
              unfolding fo using h2 by (simp add: handed_over_def)
          next
            case (written res)
            define s3 where "s3 = s2\<lparr>flushed := flushed s2 @ [batch s2],
              total := total s2 + success res, batch := []\<rparr>"
            have h3: "handed_over s3 = handed_over s2" "seen_ids s3 = seen_ids s2"
              by (simp_all add: s3_def handed_over_def)
            have "run_loop env bulk bs (Suc i) docs s3 = (r, s')"
              using step True Cons.prems written(2) by (simp add: s3_def)
            from Cons.IH [OF this] show ?thesis unfolding fo by (simp add: h2 h3)
          qed
        qed
      qed
    qed
  qed
qed

lemma run_and_index_stream:
  "prefix (concat (snd (run_and_index env bulk docs bs)))
     (first_occurrences {} (canonical_stream env 0 docs)) \<and>
   (fst (run_and_index env bulk docs bs) = Inr n \<longrightarrow>
      concat (snd (run_and_index env bulk docs bs)) =
        first_occurrences {} (canonical_stream env 0 docs))"
proof -
  obtain r s where rs: "run_loop env bulk bs 0 docs init_state = (r, s)" by fastforce
  note st = run_loop_stream [OF rs]
  have i: "handed_over init_state = []" "seen_ids init_state = {}"
    by (simp_all add: init_state_def handed_over_def)
  show ?thesis
  proof (cases r)
    case (Some e)
    with rs st i show ?thesis by (simp add: run_and_index_def)
  next
    case None
    with st i have h: "handed_over s = first_occurrences {} (canonical_stream env 0 docs)"
      by simp
    show ?thesis
    proof (cases "batch s = []")
      case True
      with rs None h show ?thesis by (simp add: run_and_index_def handed_over_def)
    next
      case False
      show ?thesis
        by (cases rule: flush_cases [of env bulk s])
          (use rs None False h in \<open>simp_all add: run_and_index_def handed_over_def\<close>)
    qed
  qed
qed

text \<open>
  A document of a stream is among the first occurrences exactly when its identifier was
  not seen before the stream and no earlier document of the stream has it.
\<close>

lemma first_occurrences_append:
  "first_occurrences seen (xs @ ys) =
     first_occurrences seen xs @ first_occurrences (seen \<union> identifier_of ` set xs) ys"
  by (induction xs arbitrary: seen) (auto simp: insert_absorb)

lemma first_occurrences_kept:
  "first_occurrences seen (xs @ x # ys) =
     first_occurrences seen xs @
     (if identifier_of x \<in> seen \<union> identifier_of ` set xs then [] else [x]) @
     first_occurrences (seen \<union> identifier_of ` set (xs @ [x])) ys"
  by (auto simp: first_occurrences_append insert_absorb)

text \<open>
  Claim C4, as amended. Deduplication is scoped to the run, not to the batch. The
  documents of all batches that one call of \<^verbatim>\<open>run_and_index\<close> hands to the store are,
  in the order of the stream, an initial part of the first occurrences of each
  identifier (the id, else the url) in the canonical stream, so no identifier occurs
  twice, also across a flush, and of two documents with one identifier only the first
  can be handed over. When the call returns, they are all the first occurrences, and the
  identifier of every input document occurs exactly once. Documents that repeat an
  identifier raise no error: a stream of valid documents with hashable identifiers,
  against a store that does not raise, always returns.
\<close>

theorem dedup_is_run_scoped:
  "prefix (concat (snd (run_and_index env bulk docs bs)))
     (first_occurrences {} (canonical_stream env 0 docs)) \<and>
   distinct (map identifier_of (concat (snd (run_and_index env bulk docs bs)))) \<and>
   (fst (run_and_index env bulk docs bs) = Inr n \<longrightarrow>
      concat (snd (run_and_index env bulk docs bs)) =
        first_occurrences {} (canonical_stream env 0 docs) \<and>
      (\<forall>d \<in> set docs.
         count_list (map identifier_of (concat (snd (run_and_index env bulk docs bs))))
           (identifier_of d) = 1)) \<and>
   ((\<forall>d \<in> set docs. valid_doc d \<and> hashable (identifier_of d)) \<and> (\<forall>acts e. bulk acts \<noteq> Inl e) \<longrightarrow>
      (\<exists>m. fst (run_and_index env bulk docs bs) = Inr m))"
proof (intro conjI impI ballI)
  show "prefix (concat (snd (run_and_index env bulk docs bs)))
     (first_occurrences {} (canonical_stream env 0 docs))"
    using run_and_index_stream [of env bulk docs bs] by simp
  show d: "distinct (map identifier_of (concat (snd (run_and_index env bulk docs bs))))"
    using run_and_index_log_ok [of env bulk docs bs] by (simp add: log_ok_def)
  show "concat (snd (run_and_index env bulk docs bs)) =
        first_occurrences {} (canonical_stream env 0 docs)"
    if "fst (run_and_index env bulk docs bs) = Inr n"
    using run_and_index_stream [of env bulk docs bs n] that by simp
  show "count_list (map identifier_of (concat (snd (run_and_index env bulk docs bs))))
           (identifier_of x) = 1"
    if "fst (run_and_index env bulk docs bs) = Inr n" "x \<in> set docs" for x
  proof -
    have "identifier_of x \<in> identifier_of ` set (concat (snd (run_and_index env bulk docs bs)))"
      using run_and_index_complete [OF that(1)] that(2) by blast
    then show ?thesis using d by (intro distinct_count_list_one) simp_all
  qed
  show "\<exists>m. fst (run_and_index env bulk docs bs) = Inr m"
    if "(\<forall>d \<in> set docs. valid_doc d \<and> hashable (identifier_of d)) \<and> (\<forall>acts e. bulk acts \<noteq> Inl e)"
    using that run_and_index_ok by blast
qed

theorem dedup_is_run_scoped_witness:
  "map (map (\<lambda>d. get d ''content''))
     (snd (run_and_index example_env store_ok
        [example_doc ''a'' ''one'', example_doc ''b'' ''two'', example_doc ''a'' ''three'',
         example_doc ''c'' ''four''] 2)) =
     [ [Str ''one'', Str ''two''], [Str ''four''] ]
   \<and> map (\<lambda>d. get d ''content'')
       (first_occurrences {} (canonical_stream example_env 0
          [example_doc ''a'' ''one'', example_doc ''b'' ''two'', example_doc ''a'' ''three'',
           example_doc ''c'' ''four''])) = [Str ''one'', Str ''two'', Str ''four'']
   \<and> fst (run_and_index example_env store_ok
        [example_doc ''a'' ''one'', example_doc ''b'' ''two'', example_doc ''a'' ''three'',
         example_doc ''c'' ''four''] 2) = Inr 3
   \<and> count_list (map identifier_of (concat (snd (run_and_index example_env store_ok
        [example_doc ''a'' ''one'', example_doc ''b'' ''two'', example_doc ''a'' ''three'',
         example_doc ''c'' ''four''] 2)))) (identifier_of (example_doc ''a'' ''three'')) = 1"
  using dedup_is_run_scoped [of example_env store_ok
        "[example_doc ''a'' ''one'', example_doc ''b'' ''two'', example_doc ''a'' ''three'',
         example_doc ''c'' ''four'']" 2 3]
  by (simp add: run_eval canonical_def)

text \<open>
  Claim C4 as stated fails: two valid documents with one identifier, followed by a
  document without content, are both in no batch, since the run is aborted before the
  batch in memory is handed over; the identifier occurs zero times, not once.
\<close>

theorem dedup_aborted_run_counterexample:
  "valid_doc (example_doc ''a'' ''one'') \<and> valid_doc (example_doc ''a'' ''three'') \<and>
   identifier_of (example_doc ''a'' ''one'') = identifier_of (example_doc ''a'' ''three'') \<and>
   count_list
     (map identifier_of (concat (snd (run_and_index example_env store_ok
        [example_doc ''a'' ''one'', example_doc ''a'' ''three'', example_doc ''c'' ''''] 500))))
     (identifier_of (example_doc ''a'' ''one'')) = 0"
  by (simp add: run_eval valid_doc_def)

text \<open>
  Claim C3. Required-field rejection: for a document in which one of \<^verbatim>\<open>source\<close>,
  \<^verbatim>\<open>url\<close>, \<^verbatim>\<open>content\<close> is empty or absent, \<^verbatim>\<open>validate_doc_shape\<close> raises the
  \<^verbatim>\<open>ValueError\<close> that carries exactly the list of the missing names; a document with
  all three is not rejected; and no document of any batch handed to the store lacks one
  of the three.
\<close>

theorem required_field_rejection:
  "(missing_fields d \<noteq> [] \<longrightarrow> validate_doc_shape now d = Inl (ValueError (missing_fields d))) \<and>
   (missing_fields d' = [] \<longrightarrow> (\<exists>out. validate_doc_shape now d' = Inr out)) \<and>
   (\<forall>b \<in> set (snd (run_and_index env bulk docs bs)). \<forall>x \<in> set b. missing_fields x = [])"
  using run_and_index_log_ok [of env bulk docs bs]
  by (auto simp: validate_doc_shape_eq log_ok_def missing_fields_Nil)


theorem required_field_rejection_witness:
  "missing_fields (example_doc ''a'' '''') = [''content''] \<and>
   validate_doc_shape ''2025-08-01T00:00:00'' (example_doc ''a'' '''') =
     Inl (ValueError [''content'']) \<and>
   missing_fields url_only_doc = [] \<and>
   isl (validate_doc_shape ''2025-08-01T00:00:00'' url_only_doc) = False \<and>
   map (map missing_fields) (snd (run_and_index example_env store_ok [url_only_doc] 1)) = [ [ [] ] ]"
  using required_field_rejection [where d = "example_doc ''a'' ''''" and d' = url_only_doc
      and now = "''2025-08-01T00:00:00''" and env = example_env and bulk = store_ok
      and docs = "[url_only_doc]" and bs = 1]
  by (simp add: run_eval missing_fields_def url_only_doc_def)

text \<open>
  Claim C2 as stated fails: a document without content, followed by a valid document,
  ends the run with the \<^verbatim>\<open>ValueError\<close>; nothing is handed to the store.
\<close>

theorem abort_on_invalid_counterexample:
  "run_and_index example_env store_ok [example_doc ''a'' '''', example_doc ''b'' ''text'']  500 =
     (Inl (ValueError [''content'']), [])"
  by (simp add: run_eval)

lemma run_loop_invalid:
  assumes "missing_fields d \<noteq> []"
  shows "run_loop env bulk bs i (pre @ d # rest) s =
     (case run_loop env bulk bs i pre s of
        (Some e, s') \<Rightarrow> (Some e, s')
      | (None, s') \<Rightarrow> (Some (ValueError (missing_fields d)), s'))"
  using assms
  by (simp add: run_loop_append validate_doc_shape_eq split: prod.splits option.splits)

text \<open>
  Claim C2, as amended. A document that fails the required-field validation aborts the
  run: \<^verbatim>\<open>run_and_index\<close> raises (the \<^verbatim>\<open>ValueError\<close> of that document, unless the loop
  over the documents before it has raised already), whatever follows the document. The
  batches handed to the store are exactly those that the loop had flushed before it
  reached the document: the batch in memory is not handed over, although the run on the
  documents before alone would hand it over as its last batch, and no later document is
  handed over.
\<close>

theorem validation_failure_aborts_run:
  assumes "missing_fields d \<noteq> []"
  shows "run_and_index env bulk (pre @ d # rest) bs =
           (case run_loop env bulk bs 0 pre init_state of
              (Some e, s) \<Rightarrow> (Inl e, flushed s)
            | (None, s) \<Rightarrow> (Inl (ValueError (missing_fields d)), flushed s)) \<and>
         (\<exists>e. fst (run_and_index env bulk (pre @ d # rest) bs) = Inl e) \<and>
         (fst (run_and_index env bulk pre bs) = Inr n \<longrightarrow>
            fst (run_and_index env bulk (pre @ d # rest) bs) = Inl (ValueError (missing_fields d))) \<and>
         prefix (snd (run_and_index env bulk (pre @ d # rest) bs))
                (snd (run_and_index env bulk pre bs)) \<and>
         (fst (run_loop env bulk bs 0 pre init_state) = None \<and>
          batch (snd (run_loop env bulk bs 0 pre init_state)) \<noteq> [] \<longrightarrow>
            snd (run_and_index env bulk pre bs) =
              snd (run_and_index env bulk (pre @ d # rest) bs) @
                [batch (snd (run_loop env bulk bs 0 pre init_state))])"
proof -
  obtain r s where rs: "run_loop env bulk bs 0 pre init_state = (r, s)" by fastforce
  show ?thesis
  proof (cases r)
    case (Some e)
    with rs show ?thesis
      by (simp add: run_and_index_def run_loop_invalid [OF assms])
  next
    case None
    show ?thesis
      by (cases rule: flush_cases [of env bulk s])
         (use rs None in \<open>simp_all add: run_and_index_def run_loop_invalid [OF assms]\<close>)
  qed
qed

theorem validation_failure_aborts_run_witness:
  "missing_fields (example_doc ''c'' '''') = [''content''] \<and>
   run_and_index example_env store_ok
     ([example_doc ''a'' ''one'', example_doc ''b'' ''two''] @
       example_doc ''c'' '''' # [example_doc ''d'' ''four'']) 500 =
     (Inl (ValueError [''content'']), []) \<and>
   map identifier_of (batch (snd (run_loop example_env store_ok 500 0
     [example_doc ''a'' ''one'', example_doc ''b'' ''two''] init_state))) = [Str ''a'', Str ''b''] \<and>
   map (map identifier_of)
     (snd (run_and_index example_env store_ok [example_doc ''a'' ''one'', example_doc ''b'' ''two''] 500))
     = [ [Str ''a'', Str ''b''] ]"
  using validation_failure_aborts_run [where d = "example_doc ''c'' ''''" and env = example_env
      and bulk = store_ok and pre = "[example_doc ''a'' ''one'', example_doc ''b'' ''two'']"
      and bs = 500 and n = 2 and rest = "[example_doc ''d'' ''four'']"]
  by (simp add: run_eval missing_fields_def)

lemma gen_actions_Inr:
  assumes "gen_actions env index ds = Inr (ds', acts)"
  shows "length ds' = length ds \<and> length acts = length ds \<and>
         (\<forall>i < length ds. assign_id env (ds ! i) = Inr (ds' ! i) \<and>
            acts ! i = \<lparr>a_op_type = ''index'', a_index = index,
                        a_id = get (ds' ! i) ''id'', a_source = ds' ! i\<rparr>)"
  using assms
proof (induction ds arbitrary: ds' acts)
  case Nil
  then show ?case by simp
next
  case (Cons d ds)
  from Cons.prems obtain d' ds2 acts2 where
    a: "assign_id env d = Inr d'" and g: "gen_actions env index ds = Inr (ds2, acts2)" and
    e: "ds' = d' # ds2"
       "acts = \<lparr>a_op_type = ''index'', a_index = index, a_id = get d' ''id'', a_source = d'\<rparr> # acts2"
    by (auto split: sum.splits prod.splits)
  from Cons.IH [OF g] a e show ?case
    by (auto simp: nth_Cons split: nat.splits)
qed


lemma assign_id_cases:
  assumes "assign_id env d = Inr d'"
  shows "(\<not> truthy (get d ''id'') \<and> truthy (get d ''url'') \<longrightarrow>
            (\<exists>u. get d ''url'' = Str u \<and> d' = d(''id'' \<mapsto> Str (sha1_hexdigest env u)) \<and>
                 get d' ''id'' = Str (sha1_hexdigest env u))) \<and>
         (truthy (get d ''id'') \<or> \<not> truthy (get d ''url'') \<longrightarrow> d' = d)"
  using assms
  by (auto simp: assign_id_def doc_id_def get_def split: if_splits val.splits sum.splits)

text \<open>
  Claim C10. \<^verbatim>\<open>index_documents\<close> changes its argument: when the call returns, a
  document that came with a non-empty url and no id has, in the caller's list, the id
  that is the SHA-1 hex digest of its url, and that id is the store identifier of its
  action; a document that came with an id is unchanged and is stored under that id; the
  action carries the document as it is after the assignment; and two documents without
  id and with the same non-empty url get the same store identifier.
\<close>

theorem index_documents_assigns_ids:
  assumes "index_documents env bulk docs = Inr res" "i < length docs"
  shows "length (docs_after res) = length docs \<and> length (submitted res) = length docs \<and>
         bulk (submitted res) = Inr (success res, errors res) \<and>
         a_source (submitted res ! i) = docs_after res ! i \<and>
         a_id (submitted res ! i) = get (docs_after res ! i) ''id'' \<and>
         (\<not> truthy (get (docs ! i) ''id'') \<and> truthy (get (docs ! i) ''url'') \<longrightarrow>
            (\<exists>u. get (docs ! i) ''url'' = Str u \<and>
                 docs_after res ! i = (docs ! i)(''id'' \<mapsto> Str (sha1_hexdigest env u)) \<and>
                 a_id (submitted res ! i) = Str (sha1_hexdigest env u))) \<and>
         (truthy (get (docs ! i) ''id'') \<longrightarrow>
            docs_after res ! i = docs ! i \<and> a_id (submitted res ! i) = get (docs ! i) ''id'') \<and>
         (\<forall>j < length docs.
            \<not> truthy (get (docs ! i) ''id'') \<and> \<not> truthy (get (docs ! j) ''id'') \<and>
            truthy (get (docs ! i) ''url'') \<and> get (docs ! i) ''url'' = get (docs ! j) ''url'' \<longrightarrow>
            a_id (submitted res ! i) = a_id (submitted res ! j))"
proof -
  from assms(1) obtain ds' acts n errs where
    g: "gen_actions env (os_index env) docs = Inr (ds', acts)" and
    b: "bulk acts = Inr (n, errs)" and
    r: "res = \<lparr>docs_after = ds', submitted = acts, success = n, errors = errs\<rparr>"
    by (auto simp: index_documents_def split: sum.splits prod.splits)
  note ga = gen_actions_Inr [OF g]
  have len: "length ds' = length docs" "length acts = length docs" using ga by simp_all
  have at: "assign_id env (docs ! k) = Inr (ds' ! k)"
    "acts ! k = \<lparr>a_op_type = ''index'', a_index = os_index env,
                  a_id = get (ds' ! k) ''id'', a_source = ds' ! k\<rparr>"
    if "k < length docs" for k
    using ga that by simp_all
  note ci = assign_id_cases [OF at(1) [OF assms(2)] ]
  have same: "a_id (acts ! i) = a_id (acts ! j)"
    if "j < length docs" "\<not> truthy (get (docs ! i) ''id'')" "\<not> truthy (get (docs ! j) ''id'')"
       "truthy (get (docs ! i) ''url'')" "get (docs ! i) ''url'' = get (docs ! j) ''url''" for j
    using ci that(2-5) assign_id_cases [OF at(1) [OF that(1)] ]
    by (auto simp: at(2) [OF assms(2)] at(2) [OF that(1)])
  show ?thesis
    using len b ci same by (auto simp: r at(2) [OF assms(2)])
qed

theorem index_documents_assigns_ids_witness:
  "map a_id (submitted (projr (index_documents example_env store_ok
       [url_only_doc, example_doc ''a'' ''one''])))
     = [Str (sha1_hexdigest example_env ''https://example.org/bmi/2''), Str ''a''] \<and>
   map (\<lambda>d. get d ''id'') (docs_after (projr (index_documents example_env store_ok
       [url_only_doc, example_doc ''a'' ''one''])))
     = [Str (sha1_hexdigest example_env ''https://example.org/bmi/2''), Str ''a'']"
  using index_documents_assigns_ids [where env = example_env and bulk = store_ok
      and docs = "[url_only_doc, example_doc ''a'' ''one'']" and i = 0
      and res = "projr (index_documents example_env store_ok [url_only_doc, example_doc ''a'' ''one''])"]
  by (simp add: run_eval url_only_doc_def)

section \<open>Properties of the identifier parsing\<close>

text \<open>
  The segments of \<open>split_str\<close> are the hyphen-delimited segments of the identifier: there
  is one more of them than there are separators, none contains the separator, and
  joining them with the separator gives the identifier back.
\<close>

lemma split_from_length:
  "length (split_from c cur s) = Suc (length (filter (\<lambda>x. x = c) s))"
  by (induction s arbitrary: cur) auto

lemma split_from_join:
  "join [c] (split_from c cur s) = cur @ s"
proof (induction s arbitrary: cur)
  case Nil
  then show ?case by simp
next
  case (Cons x xs)
  show ?case
  proof (cases "x = c")
    case True
    obtain p ps where "split_from c [] xs = p # ps"
      by (cases "split_from c [] xs") (use split_from_length [of c "[]" xs] in auto)
    with Cons [of "[]"] True show ?thesis by simp
  next
    case False
    with Cons [of "cur @ [x]"] show ?thesis by simp
  qed
qed

lemma split_from_no_sep:
  "c \<notin> set cur \<Longrightarrow> \<forall>p \<in> set (split_from c cur s). c \<notin> set p"
proof (induction s arbitrary: cur)
  case Nil
  then show ?case by simp
next
  case (Cons x xs)
  show ?case
  proof (cases "x = c")
    case True
    with Cons.IH [of "[]"] Cons.prems show ?thesis by simp
  next
    case False
    with Cons.IH [of "cur @ [x]"] Cons.prems show ?thesis by simp
  qed
qed

lemma split_str_length: "length (split_str c s) = Suc (length (filter (\<lambda>x. x = c) s))"
  by (simp add: split_str_def split_from_length)

lemma split_str_one: "length (split_str c s) < 2 \<longleftrightarrow> c \<notin> set s"
  by (auto simp: split_str_length filter_empty_conv)

lemma take3_drop2:
  "5 \<le> length xs \<Longrightarrow> take 3 (drop 2 xs) = [xs ! 2, xs ! 3, xs ! 4]"
  by (simp add: take_Suc_conv_app_nth eval_nat_numeral)

text \<open>
  Claim C9. Identifier parsing is total: for every string \<^verbatim>\<open>parse_identifier\<close> returns a
  record and raises nothing. An identifier with fewer than two hyphen-delimited segments
  (one without hyphen) yields the record whose fields are all null; a \<^verbatim>\<open>CRE\<close>
  identifier yields its kind and term, the date made of segments 3 to 5 (null when there
  are fewer than five segments) and null year and number; any other identifier yields
  its kind and term, segment 3 as year and segment 4 as number (each null when absent)
  and a null date.
\<close>

theorem parse_identifier_total:
  "(\<exists>r. parse_identifier ident = Inr r) \<and>
   (length (split_str (CHR ''-'') ident) < 2 \<longrightarrow> parse_identifier ident = Inr no_fields) \<and>
   (CHR ''-'' \<notin> set ident \<longrightarrow> parse_identifier ident = Inr no_fields) \<and>
   (2 \<le> length (split_str (CHR ''-'') ident) \<and> split_str (CHR ''-'') ident ! 0 = ''CRE'' \<longrightarrow>
      parse_identifier ident =
        Inr \<lparr>kind = Some ''CRE'', term_seg = Some (split_str (CHR ''-'') ident ! 1),
             year = None, number = None,
             date = (if 5 \<le> length (split_str (CHR ''-'') ident)
                     then Some (split_str (CHR ''-'') ident ! 2 @ ''-'' @
                                split_str (CHR ''-'') ident ! 3 @ ''-'' @
                                split_str (CHR ''-'') ident ! 4)
                     else None)\<rparr>) \<and>
   (2 \<le> length (split_str (CHR ''-'') ident) \<and> split_str (CHR ''-'') ident ! 0 \<noteq> ''CRE'' \<longrightarrow>
      parse_identifier ident =
        Inr \<lparr>kind = Some (split_str (CHR ''-'') ident ! 0),
             term_seg = Some (split_str (CHR ''-'') ident ! 1),
             year = (if 2 < length (split_str (CHR ''-'') ident)
                     then Some (split_str (CHR ''-'') ident ! 2) else None),
             number = (if 3 < length (split_str (CHR ''-'') ident)
                       then Some (split_str (CHR ''-'') ident ! 3) else None),
             date = None\<rparr>)"
proof -
  define parts where "parts = split_str (CHR ''-'') ident"
  have one: "length parts < 2 \<longleftrightarrow> CHR ''-'' \<notin> set ident"
    unfolding parts_def by (rule split_str_one)
  show ?thesis
    unfolding parts_def [symmetric] one [symmetric]
    by (auto simp: parse_identifier_def parts_def [symmetric] Let_def item_def no_fields_def
        take3_drop2)
qed

theorem parse_identifier_total_witness:
  "parse_identifier ''CRE-10-2025-01-20'' =
     Inr \<lparr>kind = Some ''CRE'', term_seg = Some ''10'', year = None, number = None,
          date = Some ''2025-01-20''\<rparr> \<and>
   parse_identifier ''A-10-2024-0001'' =
     Inr \<lparr>kind = Some ''A'', term_seg = Some ''10'', year = Some ''2024'',
          number = Some ''0001'', date = None\<rparr> \<and>
   parse_identifier ''garbage'' = Inr no_fields"
  using parse_identifier_total [of "''CRE-10-2025-01-20''"]
    parse_identifier_total [of "''A-10-2024-0001''"] parse_identifier_total [of "''garbage''"]
  by (simp add: split_str_def)

section \<open>Properties of the publication dates\<close>

lemma matches_length: "matches p s \<Longrightarrow> length s = length p"
  by (induction p s rule: matches.induct) auto

lemma matches_append: "matches p s \<Longrightarrow> matches q t \<Longrightarrow> matches (p @ q) (s @ t)"
  by (induction p s rule: matches.induct) auto

text \<open>
  A date \<^verbatim>\<open>YYYY-MM-DD\<close> has ten characters, does not end with \<^verbatim>\<open>Z\<close>, and with
  \<^verbatim>\<open>T00:00:00Z\<close> appended it is a UTC instant.
\<close>

lemma date_only_expanded:
  assumes "matches ''dddd-dd-dd'' datum"
  shows "length datum = 10" "\<not> endswith datum ''Z''" "utc_instant_string (datum @ ''T00:00:00Z'')"
proof -
  show l: "length datum = 10" using matches_length [OF assms] by simp
  show "\<not> endswith datum ''Z''"
    using assms l
    by (auto simp: length_Suc_conv eval_nat_numeral endswith_def digit_def)
  have "matches (''dddd-dd-dd'' @ ''Tdd:dd:dd'') (datum @ ''T00:00:00'')"
    using assms by (rule matches_append) (simp add: digit_def)
  then show "utc_instant_string (datum @ ''T00:00:00Z'')"
    using l by (simp add: utc_instant_string_def)
qed

lemma published_normalize:
  assumes "d ''id'' = Some i" "d ''datum'' = Some datum"
  shows "published (normalize_for_index d) =
           Str (if endswith datum ''Z'' then datum
                else if length datum = 10 then datum @ ''T00:00:00Z'' else datum)"
  using assms by (simp add: published_def normalize_for_index_def get_def Let_def)

text \<open>
  Claim C6, as amended. The publication date is normalized as far as the code goes.
  \<^verbatim>\<open>normalize_for_index\<close> expands a date \<^verbatim>\<open>YYYY-MM-DD\<close>, and any other text of ten
  characters that does not end with \<^verbatim>\<open>Z\<close>, to midnight UTC by appending
  \<^verbatim>\<open>T00:00:00Z\<close>; it keeps a text that ends with \<^verbatim>\<open>Z\<close>; and it passes every other text
  on unchanged. \<^verbatim>\<open>iter_pdf_kind\<close> expands a date \<^verbatim>\<open>YYYY-MM-DD\<close> to midnight UTC, turns a
  time with a zone into the UTC time with \<^verbatim>\<open>Z\<close>, appends \<^verbatim>\<open>Z\<close> to a time without zone,
  and passes a text that the library cannot read on unchanged unless it has ten
  characters.
\<close>

theorem publication_date_best_effort:
  "(d ''id'' = Some i \<and> d ''datum'' = Some datum \<and> matches ''dddd-dd-dd'' datum \<longrightarrow>
      published (normalize_for_index d) = Str (datum @ ''T00:00:00Z'') \<and>
      utc_instant_string (datum @ ''T00:00:00Z'')) \<and>
   (d ''id'' = Some i \<and> d ''datum'' = Some datum \<and> endswith datum ''Z'' \<longrightarrow>
      published (normalize_for_index d) = Str datum) \<and>
   (d ''id'' = Some i \<and> d ''datum'' = Some datum \<and> \<not> endswith datum ''Z'' \<and> length datum = 10 \<longrightarrow>
      published (normalize_for_index d) = Str (datum @ ''T00:00:00Z'')) \<and>
   (d ''id'' = Some i \<and> d ''datum'' = Some datum \<and> \<not> endswith datum ''Z'' \<and> length datum \<noteq> 10 \<longrightarrow>
      published (normalize_for_index d) = Str datum) \<and>
   (matches ''dddd-dd-dd'' pub \<and> (\<forall>u. parse (replace ''Z'' ''+00:00'' pub) \<noteq> AwareDatetime u) \<longrightarrow>
      pub_date parse (Some pub) = Some (pub @ ''T00:00:00Z'')) \<and>
   (pub \<noteq> [] \<and> parse (replace ''Z'' ''+00:00'' pub) = AwareDatetime u \<longrightarrow>
      pub_date parse (Some pub) = Some (replace ''+00:00'' ''Z'' u)) \<and>
   (pub \<noteq> [] \<and> parse (replace ''Z'' ''+00:00'' pub) = NaiveDatetime \<and> length pub \<noteq> 10 \<longrightarrow>
      pub_date parse (Some pub) = Some (pub @ ''Z'')) \<and>
   (pub \<noteq> [] \<and> parse (replace ''Z'' ''+00:00'' pub) = ParseFailure \<and> length pub \<noteq> 10 \<longrightarrow>
      pub_date parse (Some pub) = Some pub)"
proof -
  have eu: "pub_date parse (Some pub) = Some (pub @ ''T00:00:00Z'')"
    if "matches ''dddd-dd-dd'' pub" "\<forall>u. parse (replace ''Z'' ''+00:00'' pub) \<noteq> AwareDatetime u"
  proof -
    have "length pub = 10" using that(1) by (rule date_only_expanded(1))
    then show ?thesis
      using that(2) by (auto simp: pub_date_def split: parsed_datetime.splits)
  qed
  show ?thesis
    using eu
    by (auto simp: published_normalize date_only_expanded pub_date_def)
qed

text \<open>
  Claim C6 as stated fails: a date with a time of day and no zone goes into the
  canonical document as it is, and is not a UTC instant string.
\<close>

theorem naive_date_counterexample:
  "published (normalize_for_index naive_record) = Str ''2025-08-01T10:30:00'' \<and>
   utc_instant_string ''2025-08-01T10:30:00'' = False \<and>
   endswith ''2025-08-01T10:30:00'' ''Z'' = False"
  by (simp add: published_def normalize_for_index_def naive_record_def get_def endswith_def
      utc_instant_string_def digit_def)

theorem publication_date_best_effort_witness:
  "published (normalize_for_index dated_record) = Str ''2025-08-01T00:00:00Z'' \<and>
   utc_instant_string ''2025-08-01T00:00:00Z'' \<and>
   pub_date example_fromisoformat (Some ''2024-01-05'') = Some ''2024-01-05T00:00:00Z'' \<and>
   pub_date example_fromisoformat (Some ''2024-01-05T10:00:00+01:00'') =
     Some ''2024-01-05T09:00:00Z'' \<and>
   pub_date example_fromisoformat (Some ''5 January 2024'') = Some ''5 January 2024''"
  using publication_date_best_effort [where d = dated_record and i = "''4711''"
      and datum = "''2025-08-01''" and pub = "''2024-01-05''" and parse = example_fromisoformat
      and u = "''2024-01-05T09:00:00+00:00''"]
    publication_date_best_effort [where d = dated_record and i = "''4711''"
      and datum = "''2025-08-01''" and pub = "''2024-01-05T10:00:00+01:00''"
      and parse = example_fromisoformat and u = "''2024-01-05T09:00:00+00:00''"]
    publication_date_best_effort [where d = dated_record and i = "''4711''"
      and datum = "''2025-08-01''" and pub = "''5 January 2024''"
      and parse = example_fromisoformat and u = "''2024-01-05T09:00:00+00:00''"]
  by (simp add: dated_record_def example_fromisoformat_def digit_def)

section \<open>Properties of the search\<close>

text \<open>
  Claim C5. For the text \<^verbatim>\<open>Wasserstoff\<close>, the sources \<^verbatim>\<open>["bundestag"]\<close>, no document
  types, no dates, page 1 and size 10, the body that \<^verbatim>\<open>search_documents\<close> builds has as
  its filter list exactly the terms filter on \<^verbatim>\<open>source\<close> for \<^verbatim>\<open>["bundestag"]\<close>, so no
  range filter on \<^verbatim>\<open>publication_date\<close>; its must list is one bool clause with
  \<^verbatim>\<open>minimum_should_match\<close> 1 whose should list holds the cross-field multi-match and the
  title and content phrase clauses (and the fuzzy clause); \<^verbatim>\<open>from\<close> is 0 and \<^verbatim>\<open>size\<close>
  is 10.
\<close>

theorem query_construction_example:
  "at_path (search_body (Some ''Wasserstoff'') (Some [''bundestag'']) None None None 1 10)
     [''query'', ''bool'', ''filter''] =
     Some (JArr [JObj [(''terms'', JObj [(''source'', JArr [JStr ''bundestag''])])] ]) \<and>
   at_path (search_body (Some ''Wasserstoff'') (Some [''bundestag'']) None None None 1 10)
     [''query'', ''bool'', ''must''] =
     Some (JArr [JObj [(''bool'', JObj [(''should'', JArr (should_queries ''Wasserstoff'')),
                                        (''minimum_should_match'', JInt 1)])] ]) \<and>
   should_queries ''Wasserstoff'' =
     [cross_fields_clause ''Wasserstoff'', phrase_clause ''title'' 4 ''Wasserstoff'',
      phrase_clause ''content'' 2 ''Wasserstoff'', fuzzy_clause ''Wasserstoff''] \<and>
   at_path (cross_fields_clause ''Wasserstoff'') [''multi_match'', ''type''] =
     Some (JStr ''cross_fields'') \<and>
   at_path (phrase_clause ''title'' 4 ''Wasserstoff'') [''match_phrase'', ''title'', ''query''] =
     Some (JStr ''Wasserstoff'') \<and>
   at_path (phrase_clause ''content'' 2 ''Wasserstoff'') [''match_phrase'', ''content'', ''query''] =
     Some (JStr ''Wasserstoff'') \<and>
   filter (\<lambda>f. field f ''range'' \<noteq> None)
     (array_at (search_body (Some ''Wasserstoff'') (Some [''bundestag'']) None None None 1 10)
        [''query'', ''bool'', ''filter'']) = [] \<and>
   cross_fields_clause ''Wasserstoff'' \<in> set (should_queries ''Wasserstoff'') \<and>
   phrase_clause ''title'' 4 ''Wasserstoff'' \<in> set (should_queries ''Wasserstoff'') \<and>
   phrase_clause ''content'' 2 ''Wasserstoff'' \<in> set (should_queries ''Wasserstoff'') \<and>
   at_path (search_body (Some ''Wasserstoff'') (Some [''bundestag'']) None None None 1 10)
     [''from''] = Some (JInt 0) \<and>
   at_path (search_body (Some ''Wasserstoff'') (Some [''bundestag'']) None None None 1 10)
     [''size''] = Some (JInt 10)"
  by (simp add: search_body_def terms_filter_def given_def should_queries_def
      cross_fields_clause_def phrase_clause_def array_at_def)

text \<open>For every input, the offset is (page - 1) times size and the limit is size.\<close>

lemma search_body_paging:
  "at_path (search_body q ss ts f t page sz) [''from''] = Some (JInt ((page - 1) * sz)) \<and>
   at_path (search_body q ss ts f t page sz) [''size''] = Some (JInt sz)"
  by (simp add: search_body_def Let_def)

lemma frags_cases:
  "snippet h =
     (if frags h ''content'' \<noteq> [] then Some (hd (frags h ''content''))
      else if frags h ''title'' \<noteq> [] then Some (hd (frags h ''title''))
      else if given (src_get h ''content'') then
        (if 300 < length (the (src_get h ''content''))
         then Some (take 300 (the (src_get h ''content'')) @ ellipsis)
         else src_get h ''content'')
      else None)"
  by (auto simp: snippet_def given_def Let_def split: list.splits option.splits)

text \<open>
  Claim C8. The snippet of a hit is the first highlighted content fragment when there is
  one; else the first highlighted title fragment when there is one; else, when the
  stored content is not empty, its first 300 characters followed by the ellipsis when it
  has more than 300 characters and the whole content when it has not; else null.
\<close>

theorem snippet_fallback_chain:
  "(frags h ''content'' \<noteq> [] \<longrightarrow> snippet h = Some (hd (frags h ''content''))) \<and>
   (frags h ''content'' = [] \<and> frags h ''title'' \<noteq> [] \<longrightarrow>
      snippet h = Some (hd (frags h ''title''))) \<and>
   (frags h ''content'' = [] \<and> frags h ''title'' = [] \<and> src_get h ''content'' = Some c \<and>
    c \<noteq> [] \<and> 300 < length c \<longrightarrow>
      snippet h = Some (take 300 c @ ellipsis) \<and> length (the (snippet h)) = 301) \<and>
   (frags h ''content'' = [] \<and> frags h ''title'' = [] \<and> src_get h ''content'' = Some c \<and>
    c \<noteq> [] \<and> length c \<le> 300 \<longrightarrow>
      snippet h = Some c) \<and>
   (frags h ''content'' = [] \<and> frags h ''title'' = [] \<and>
    (src_get h ''content'' = None \<or> src_get h ''content'' = Some []) \<longrightarrow>
      snippet h = None) \<and>
   s_snippet (shape_hit h) = snippet h"
  by (auto simp: frags_cases given_def ellipsis_def shape_hit_def split: option.splits)

lemmas hit_eval =
  frags_def src_get_def long_hit_def short_hit_def title_hit_def content_hit_def empty_hit_def
  ellipsis_def

theorem snippet_fallback_chain_witness:
  "snippet content_hit = Some [72, 50] \<and>
   snippet title_hit = Some [60, 109, 62] \<and>
   snippet long_hit = Some (replicate 300 97 @ [8230]) \<and>
   snippet short_hit = Some (replicate 300 97) \<and>
   snippet empty_hit = None"
  using snippet_fallback_chain [of content_hit "[]"] snippet_fallback_chain [of title_hit "[]"]
    snippet_fallback_chain [of long_hit "replicate 301 97"]
    snippet_fallback_chain [of short_hit "replicate 300 97"]
    snippet_fallback_chain [of empty_hit "[]"]
  by (simp add: hit_eval)

end
